theory Spec2Isabelle
  imports Main "HOL-Library.Word" "HOL-Library.AList" "HOL-Library.Sublist"
begin

unbundle bit_operations_syntax

section \<open>The operating system, as far as the ledger uses it\<close>

text \<open>
  The ledger package of alloy talks to the file system through package \<open>os\<close>. The calls it
  makes are modelled on a tree of nodes. A path is the list of the components of a cleaned
  absolute path (\<open>/usr/local/bin\<close> is \<open>[''usr'', ''local'', ''bin'']\<close>), the empty list is
  the root directory. A path field that Go leaves unset (the empty string) holds the empty
  list too, and the code's comparison with \<open>""\<close> is the comparison with \<open>[]\<close>; a file
  operation on the empty string itself is outside the model.
  Restrictions of the model: permissions are recorded but never refuse an access, a symbolic
  link in the middle of a path is not traversed (the lookup answers \<open>ENOTDIR\<close>), link
  targets are absolute paths, a final symbolic link is followed at most 40 times, as
  Linux does, and the root directory cannot be removed or replaced.
\<close>

type_synonym path = "string list"

datatype errno = ENOENT | ENOTDIR | EISDIR | ENOTEMPTY | EEXIST | ELOOP | EINVAL | EBADF

record stat_t =
  st_mode :: "32 word"
  st_uid :: "32 word"
  st_gid :: "32 word"
  st_mtime :: int

datatype node =
    File stat_t string
  | Symlink stat_t path
  | Dir stat_t "(string \<times> node) list"

fun node_stat :: "node \<Rightarrow> stat_t" where
  "node_stat (File st c) = st"
| "node_stat (Symlink st t) = st"
| "node_stat (Dir st es) = st"

fun set_stat :: "stat_t \<Rightarrow> node \<Rightarrow> node" where
  "set_stat st (File st0 c) = File st c"
| "set_stat st (Symlink st0 t) = Symlink st t"
| "set_stat st (Dir st0 es) = Dir st es"

text \<open>\<open>info.Mode().IsRegular()\<close>, \<open>info.IsDir()\<close>, \<open>info.Mode()&os.ModeSymlink != 0\<close>,
  \<open>info.Mode().Perm()\<close>, \<open>info.Size()\<close> and \<open>info.ModTime()\<close> of an \<open>os.FileInfo\<close>.\<close>

fun IsRegular :: "node \<Rightarrow> bool" where
  "IsRegular (File st c) = True"
| "IsRegular n = False"

fun IsDir :: "node \<Rightarrow> bool" where
  "IsDir (Dir st es) = True"
| "IsDir n = False"

fun IsSymlink :: "node \<Rightarrow> bool" where
  "IsSymlink (Symlink st t) = True"
| "IsSymlink n = False"

definition Perm :: "node \<Rightarrow> 32 word" where
  "Perm n = st_mode (node_stat n) AND 0x1FF"

fun node_Size :: "node \<Rightarrow> int" where
  "node_Size (File st c) = int (length c)"
| "node_Size (Symlink st t) = int (length t)"
| "node_Size (Dir st es) = 4096"

definition node_ModTime :: "node \<Rightarrow> int" where
  "node_ModTime n = st_mtime (node_stat n)"

text \<open>The node a path names, without following a final symbolic link (\<open>lstat\<close>).\<close>

fun lookup :: "node \<Rightarrow> path \<Rightarrow> errno + node" where
  "lookup n [] = Inr n"
| "lookup (Dir st es) (c # cs) =
     (case map_of es c of None \<Rightarrow> Inl ENOENT | Some n \<Rightarrow> lookup n cs)"
| "lookup n (c # cs) = Inl ENOTDIR"

text \<open>
  One change of a directory entry: \<open>f\<close> sees what the last component names in its
  directory (nothing, or a node) and answers an error, the removal, or the new node.
\<close>

fun alter :: "(node option \<Rightarrow> errno + node option) \<Rightarrow> node \<Rightarrow> path \<Rightarrow> errno + node" where
  "alter f n [] = Inl EINVAL"
| "alter f (Dir st es) [c] =
     (case f (map_of es c) of
        Inl e \<Rightarrow> Inl e
      | Inr None \<Rightarrow> Inr (Dir st (AList.delete c es))
      | Inr (Some n') \<Rightarrow> Inr (Dir st (AList.update c n' es)))"
| "alter f (Dir st es) (c # cs) =
     (case map_of es c of
        None \<Rightarrow> Inl ENOENT
      | Some n \<Rightarrow>
          (case alter f n cs of
             Inl e \<Rightarrow> Inl e
           | Inr n' \<Rightarrow> Inr (Dir st (AList.update c n' es))))"
| "alter f n (c # cs) = Inl ENOTDIR"

text \<open>The path a name stands for once its final symbolic links are followed.\<close>

fun follow :: "nat \<Rightarrow> node \<Rightarrow> path \<Rightarrow> errno + path" where
  "follow 0 r p = (case lookup r p of Inr (Symlink st t) \<Rightarrow> Inl ELOOP | _ \<Rightarrow> Inr p)"
| "follow (Suc k) r p = (case lookup r p of Inr (Symlink st t) \<Rightarrow> follow k r t | _ \<Rightarrow> Inr p)"

definition MAXSYMLINKS :: nat where
  "MAXSYMLINKS = 40"

text \<open>\<open>os.MkdirAll\<close> on the tree: every missing directory of the path is created with the
  given attributes; a component that exists and is no directory fails the call, and then
  nothing has been created.\<close>

fun mkdir_all :: "stat_t \<Rightarrow> node \<Rightarrow> path \<Rightarrow> errno + node" where
  "mkdir_all new (Dir st es) [] = Inr (Dir st es)"
| "mkdir_all new n [] = Inl ENOTDIR"
| "mkdir_all new (Dir st es) (c # cs) =
     (case mkdir_all new (case map_of es c of None \<Rightarrow> Dir new [] | Some n \<Rightarrow> n) cs of
        Inl e \<Rightarrow> Inl e
      | Inr n' \<Rightarrow> Inr (Dir st (AList.update c n' es)))"
| "mkdir_all new n (c # cs) = Inl ENOTDIR"

section \<open>Errors\<close>

text \<open>
  Go's \<open>error\<close> values, as far as the code makes and tests them: the two sentinels of
  \<open>replay.go\<close>, an error of package \<open>os\<close> (a \<open>*PathError\<close> around an errno), a plain
  message (\<open>errors.New\<close>, \<open>fmt.Errorf\<close> without \<open>%w\<close>), and \<open>fmt.Errorf("msg: %w", err)\<close>.
\<close>

datatype error =
    errSkipped
  | errModified
  | PathError errno
  | ErrorString string
  | Wrapped string error

fun errors_Is :: "error \<Rightarrow> error \<Rightarrow> bool" where
  "errors_Is (Wrapped m e) t = (Wrapped m e = t \<or> errors_Is e t)"
| "errors_Is e t = (e = t)"

text \<open>\<open>os.IsNotExist\<close> and \<open>os.IsExist\<close> look through a \<open>*PathError\<close> only, not through
  \<open>%w\<close>; \<open>os.IsExist\<close> holds of \<open>EEXIST\<close> and \<open>ENOTEMPTY\<close>.\<close>

fun os_IsNotExist :: "error \<Rightarrow> bool" where
  "os_IsNotExist (PathError e) = (e = ENOENT)"
| "os_IsNotExist e = False"

fun os_IsExist :: "error \<Rightarrow> bool" where
  "os_IsExist (PathError e) = (e = EEXIST \<or> e = ENOTEMPTY)"
| "os_IsExist e = False"

fun error_text :: "error \<Rightarrow> string option" where
  "error_text (ErrorString m) = Some m"
| "error_text e = None"

definition isNotEmpty :: "error \<Rightarrow> bool" where
  "isNotEmpty err =
     (os_IsExist err \<or> errors_Is err (PathError EEXIST) \<or>
      (case error_text err of
         Some m \<Rightarrow> m \<noteq> [] \<and> m \<in> set [''directory not empty'', ''not empty'']
       | None \<Rightarrow> False))"

section \<open>The data model (\<open>types.go\<close>)\<close>

text \<open>\<open>Op\<close> is a Go string type: a ledger read from disk can carry any string.\<close>

type_synonym Op = string

definition OpFileCreate :: Op where "OpFileCreate = ''file_create''"
definition OpFileDelete :: Op where "OpFileDelete = ''file_delete''"
definition OpFileOverwrite :: Op where "OpFileOverwrite = ''file_overwrite''"
definition OpDirCreate :: Op where "OpDirCreate = ''dir_create''"
definition OpSymlinkCreate :: Op where "OpSymlinkCreate = ''symlink_create''"
definition OpHardlinkCreate :: Op where "OpHardlinkCreate = ''hardlink_create''"

text \<open>
  \<open>OriginalFile\<close> and \<open>Entry\<close>. The fields of \<open>OriginalFile\<close> carry the prefix \<open>O\<close>
  where \<open>Entry\<close> has a field of the same name. A \<open>time.Time\<close> is an integer, the zero time
  is 0. The pointer \<open>Original\<close> is an option.
\<close>

record OriginalFile =
  OMode :: "32 word"
  OUID :: "32 word"
  OGID :: "32 word"
  OSize :: int
  OChecksum :: string
  BackupPath :: path
  OTarget :: path
  ModTime :: int

record Entry =
  Op :: Op
  Path :: path
  Timestamp :: int
  Mode :: "32 word"
  UID :: "32 word"
  GID :: "32 word"
  Size :: int
  Checksum :: string
  Target :: path
  Original :: "OriginalFile option"

record Header =
  Version :: int
  Package :: string
  InstalledAt :: int
  Source :: string
  SourceChecksum :: string

definition CurrentVersion :: int where
  "CurrentVersion = 1"

definition zero_Entry :: Entry where
  "zero_Entry = \<lparr>Op = [], Path = [], Timestamp = 0, Mode = 0, UID = 0, GID = 0, Size = 0,
     Checksum = [], Target = [], Original = None\<rparr>"

definition zero_OriginalFile :: OriginalFile where
  "zero_OriginalFile = \<lparr>OMode = 0, OUID = 0, OGID = 0, OSize = 0, OChecksum = [],
     BackupPath = [], OTarget = [], ModTime = 0\<rparr>"

definition zero_Header :: Header where
  "zero_Header = \<lparr>Version = 0, Package = [], InstalledAt = 0, Source = [], SourceChecksum = []\<rparr>"

section \<open>The world outside the repository\<close>

text \<open>
  The state the code runs in: the file tree, the clock, the credentials and umask of the
  process, and the library functions the code calls but does not define, taken as
  parameters: SHA-256 with hex encoding (\<open>digest\<close>), \<open>encoding/json\<close> for the two record
  types of the ledger file, and the shell that a \<open>run\<close> step starts (it may change the
  tree in any way).
\<close>

record world =
  root :: node
  now :: int
  euid :: "32 word"
  egid :: "32 word"
  umask :: "32 word"
  digest :: "string \<Rightarrow> string"
  marshal_Header :: "Header \<Rightarrow> error + string"
  marshal_Entry :: "Entry \<Rightarrow> error + string"
  unmarshal_Header :: "string \<Rightarrow> error + Header"
  unmarshal_Entry :: "string \<Rightarrow> error + Entry"
  shell :: "string \<Rightarrow> path \<Rightarrow> node \<Rightarrow> error option \<times> node"

definition new_stat :: "world \<Rightarrow> 32 word \<Rightarrow> stat_t" where
  "new_stat w perm =
     \<lparr>st_mode = (perm AND 0x1FF) AND NOT (umask w), st_uid = euid w, st_gid = egid w,
      st_mtime = now w\<rparr>"

definition on_root :: "world \<Rightarrow> errno + node \<Rightarrow> error option \<times> world" where
  "on_root w r = (case r of Inl e \<Rightarrow> (Some (PathError e), w) | Inr n \<Rightarrow> (None, w\<lparr>root := n\<rparr>))"

definition os_Lstat :: "world \<Rightarrow> path \<Rightarrow> error + node" where
  "os_Lstat w p =
     (case lookup (root w) p of Inl e \<Rightarrow> Inl (PathError e) | Inr n \<Rightarrow> Inr n)"

definition os_Stat :: "world \<Rightarrow> path \<Rightarrow> error + node" where
  "os_Stat w p =
     (case follow MAXSYMLINKS (root w) p of
        Inl e \<Rightarrow> Inl (PathError e)
      | Inr q \<Rightarrow> (case lookup (root w) q of Inl e \<Rightarrow> Inl (PathError e) | Inr n \<Rightarrow> Inr n))"

definition os_Readlink :: "world \<Rightarrow> path \<Rightarrow> error + path" where
  "os_Readlink w p =
     (case os_Lstat w p of
        Inl e \<Rightarrow> Inl e
      | Inr (Symlink st t) \<Rightarrow> Inr t
      | Inr n \<Rightarrow> Inl (PathError EINVAL))"

text \<open>
  An open file is known by the path it was opened at, final symbolic links followed.
  \<open>os.Open\<close> succeeds on any node that exists; reading a directory fails with \<open>EISDIR\<close>.
\<close>

definition os_Open :: "world \<Rightarrow> path \<Rightarrow> error + path" where
  "os_Open w p =
     (case follow MAXSYMLINKS (root w) p of
        Inl e \<Rightarrow> Inl (PathError e)
      | Inr q \<Rightarrow> (case lookup (root w) q of Inl e \<Rightarrow> Inl (PathError e) | Inr n \<Rightarrow> Inr q))"

definition os_Read :: "world \<Rightarrow> path \<Rightarrow> error + string" where
  "os_Read w h =
     (case lookup (root w) h of
        Inl e \<Rightarrow> Inl (PathError EBADF)
      | Inr (File st c) \<Rightarrow> Inr c
      | Inr n \<Rightarrow> Inl (PathError EISDIR))"

fun unlink :: "node option \<Rightarrow> errno + node option" where
  "unlink None = Inl ENOENT"
| "unlink (Some (Dir st (x # xs))) = Inl ENOTEMPTY"
| "unlink (Some n) = Inr None"

text \<open>\<open>os.Remove\<close>: unlinks a file or a link, removes an empty directory.\<close>

definition os_Remove :: "world \<Rightarrow> path \<Rightarrow> error option \<times> world" where
  "os_Remove w p = on_root w (alter unlink (root w) p)"

definition os_MkdirAll :: "world \<Rightarrow> path \<Rightarrow> 32 word \<Rightarrow> error option \<times> world" where
  "os_MkdirAll w p perm = on_root w (mkdir_all (new_stat w perm) (root w) p)"

fun put_dir :: "stat_t \<Rightarrow> node option \<Rightarrow> errno + node option" where
  "put_dir new None = Inr (Some (Dir new []))"
| "put_dir new (Some n) = Inl EEXIST"

definition os_Mkdir :: "world \<Rightarrow> path \<Rightarrow> 32 word \<Rightarrow> error option \<times> world" where
  "os_Mkdir w p perm = on_root w (alter (put_dir (new_stat w perm)) (root w) p)"

fun put_link :: "stat_t \<Rightarrow> path \<Rightarrow> node option \<Rightarrow> errno + node option" where
  "put_link new t None = Inr (Some (Symlink new t))"
| "put_link new t (Some n) = Inl EEXIST"

definition os_Symlink :: "world \<Rightarrow> path \<Rightarrow> path \<Rightarrow> error option \<times> world" where
  "os_Symlink w t p = on_root w (alter (put_link (new_stat w 0x1FF) t) (root w) p)"

fun put_file :: "stat_t \<Rightarrow> int \<Rightarrow> node option \<Rightarrow> errno + node option" where
  "put_file new t None = Inr (Some (File new []))"
| "put_file new t (Some (File st c0)) = Inr (Some (File (st\<lparr>st_mtime := t\<rparr>) []))"
| "put_file new t (Some (Dir st es)) = Inl EISDIR"
| "put_file new t (Some (Symlink st tg)) = Inl ELOOP"

text \<open>\<open>os.OpenFile(p, O_CREATE|O_WRONLY|O_TRUNC, perm)\<close>, which is also \<open>os.Create\<close> with
  \<open>perm = 0666\<close>: the file is created empty when it is missing and truncated when it is
  there; a final symbolic link is followed. The result is the open file.\<close>

definition os_OpenFile_trunc :: "world \<Rightarrow> path \<Rightarrow> 32 word \<Rightarrow> (error + path) \<times> world" where
  "os_OpenFile_trunc w p perm =
     (case follow MAXSYMLINKS (root w) p of
        Inl e \<Rightarrow> (Inl (PathError e), w)
      | Inr q \<Rightarrow>
          (case alter (put_file (new_stat w perm) (now w)) (root w) q of
             Inl e \<Rightarrow> (Inl (PathError e), w)
           | Inr r \<Rightarrow> (Inr q, w\<lparr>root := r\<rparr>)))"

definition os_Create :: "world \<Rightarrow> path \<Rightarrow> (error + path) \<times> world" where
  "os_Create w p = os_OpenFile_trunc w p 0x1B6"

fun put_new_file :: "stat_t \<Rightarrow> node option \<Rightarrow> errno + node option" where
  "put_new_file new None = Inr (Some (File new []))"
| "put_new_file new (Some n) = Inl EEXIST"

text \<open>\<open>os.OpenFile(p, O_CREATE|O_WRONLY|O_EXCL, perm)\<close>: fails when anything is there.\<close>

definition os_OpenFile_excl :: "world \<Rightarrow> path \<Rightarrow> 32 word \<Rightarrow> (error + path) \<times> world" where
  "os_OpenFile_excl w p perm =
     (case alter (put_new_file (new_stat w perm)) (root w) p of
        Inl e \<Rightarrow> (Inl (PathError e), w)
      | Inr r \<Rightarrow> (Inr p, w\<lparr>root := r\<rparr>))"

text \<open>\<open>os.OpenFile(p, O_WRONLY|O_APPEND, perm)\<close>: the file must be there.\<close>

definition os_OpenFile_append :: "world \<Rightarrow> path \<Rightarrow> error + path" where
  "os_OpenFile_append w p =
     (case os_Open w p of
        Inl e \<Rightarrow> Inl e
      | Inr q \<Rightarrow> (case lookup (root w) q of Inr (Dir st es) \<Rightarrow> Inl (PathError EISDIR) | _ \<Rightarrow> Inr q))"

fun append_file :: "int \<Rightarrow> string \<Rightarrow> node option \<Rightarrow> errno + node option" where
  "append_file t c (Some (File st c0)) = Inr (Some (File (st\<lparr>st_mtime := t\<rparr>) (c0 @ c)))"
| "append_file t c n = Inl EBADF"

text \<open>\<open>Write\<close> on a file opened for writing (after a truncation, or in append mode): the
  bytes are added at the end.\<close>

definition os_Write :: "world \<Rightarrow> path \<Rightarrow> string \<Rightarrow> error option \<times> world" where
  "os_Write w h c = on_root w (alter (append_file (now w) c) (root w) h)"

fun set_perm :: "32 word \<Rightarrow> node option \<Rightarrow> errno + node option" where
  "set_perm m None = Inl ENOENT"
| "set_perm m (Some n) = Inr (Some (set_stat ((node_stat n)\<lparr>st_mode := m AND 0x1FF\<rparr>) n))"

definition os_Chmod :: "world \<Rightarrow> path \<Rightarrow> 32 word \<Rightarrow> error option \<times> world" where
  "os_Chmod w p m =
     (case follow MAXSYMLINKS (root w) p of
        Inl e \<Rightarrow> (Some (PathError e), w)
      | Inr q \<Rightarrow> on_root w (alter (set_perm m) (root w) q))"

fun set_mtime :: "int \<Rightarrow> node option \<Rightarrow> errno + node option" where
  "set_mtime t None = Inl ENOENT"
| "set_mtime t (Some n) = Inr (Some (set_stat ((node_stat n)\<lparr>st_mtime := t\<rparr>) n))"

definition os_Chtimes :: "world \<Rightarrow> path \<Rightarrow> int \<Rightarrow> error option \<times> world" where
  "os_Chtimes w p t =
     (case follow MAXSYMLINKS (root w) p of
        Inl e \<Rightarrow> (Some (PathError e), w)
      | Inr q \<Rightarrow> on_root w (alter (set_mtime t) (root w) q))"

text \<open>\<open>filepath.Dir\<close> and \<open>filepath.Join\<close> with one more element, on cleaned paths.\<close>

definition filepath_Dir :: "path \<Rightarrow> path" where
  "filepath_Dir p = butlast p"

definition filepath_Join :: "path \<Rightarrow> string \<Rightarrow> path" where
  "filepath_Join d name = (if name = [] then d else d @ [name])"

text \<open>\<open>getOwnership\<close>, in its \<open>unix\<close> build.\<close>

definition getOwnership :: "node \<Rightarrow> 32 word \<times> 32 word" where
  "getOwnership info = (st_uid (node_stat info), st_gid (node_stat info))"

section \<open>Digest (\<open>checksum.go\<close>)\<close>

definition Checksum_file :: "world \<Rightarrow> path \<Rightarrow> error + string" where
  "Checksum_file w p =
     (case os_Open w p of
        Inl err \<Rightarrow> Inl err
      | Inr f \<Rightarrow> (case os_Read w f of Inl err \<Rightarrow> Inl err | Inr c \<Rightarrow> Inr (digest w c)))"

definition ChecksumBytes :: "world \<Rightarrow> string \<Rightarrow> string" where
  "ChecksumBytes w c = digest w c"

definition VerifyChecksum :: "world \<Rightarrow> path \<Rightarrow> string \<Rightarrow> bool \<times> error option" where
  "VerifyChecksum w p expected =
     (case Checksum_file w p of
        Inl err \<Rightarrow> (False, Some err)
      | Inr actual \<Rightarrow> (actual = expected, None))"

section \<open>Reverse replay (\<open>replay.go\<close>)\<close>

record Ledger =
  LHeader :: Header
  Entries :: "Entry list"
  lpath :: path
  lfile :: "path option"

record ReplayError =
  REntry :: Entry
  Err :: error

record ReplayResult =
  Processed :: int
  Skipped :: int
  Errors :: "ReplayError list"
  ModifiedFiles :: "path list"

definition HasErrors :: "ReplayResult \<Rightarrow> bool" where
  "HasErrors r = (length (Errors r) > 0)"

text \<open>\<open>OnEntry\<close> is a callback; the model keeps whether it is set, and \<open>ReverseReplay\<close>
  returns the calls it made.\<close>

record ReplayOptions =
  DryRun :: bool
  Force :: bool
  Verbose :: bool
  OnEntry :: bool
  KeepBackups :: bool

type_synonym action = "string \<times> error option"

definition copyFile :: "world \<Rightarrow> path \<Rightarrow> path \<Rightarrow> error option \<times> world" where
  "copyFile w src dst =
     (case os_Open w src of
        Inl err \<Rightarrow> (Some err, w)
      | Inr fin \<Rightarrow>
          (case os_Create w dst of
             (Inl err, w1) \<Rightarrow> (Some err, w1)
           | (Inr fout, w1) \<Rightarrow>
               (case os_Read w1 fin of
                  Inl err \<Rightarrow> (Some err, w1)
                | Inr c \<Rightarrow> os_Write w1 fout c)))"

definition replayFileCreate :: "Entry \<Rightarrow> ReplayOptions \<Rightarrow> world \<Rightarrow> action \<times> world" where
  "replayFileCreate entry opts w =
     (case os_Lstat w (Path entry) of
        Inl err \<Rightarrow>
          if os_IsNotExist err then ((''skip (not found)'', Some errSkipped), w)
          else ((''error'', Some (Wrapped ''stat file'' err)), w)
      | Inr info \<Rightarrow>
          if \<not> IsRegular info then ((''skip (not a file)'', Some errSkipped), w)
          else
            (case (if Checksum entry \<noteq> [] then
                     (case VerifyChecksum w (Path entry) (Checksum entry) of
                        (match, Some err) \<Rightarrow> Some (''error'', Wrapped ''verify checksum'' err)
                      | (match, None) \<Rightarrow>
                          if \<not> match then Some (''modified'', errModified) else None)
                   else None) of
               Some (label, err) \<Rightarrow> ((label, Some err), w)
             | None \<Rightarrow>
                 if DryRun opts then ((''would delete'', None), w)
                 else
                   (case os_Remove w (Path entry) of
                      (Some err, w') \<Rightarrow> ((''error'', Some (Wrapped ''remove file'' err)), w')
                    | (None, w') \<Rightarrow> ((''deleted'', None), w'))))"

text \<open>The tail that \<open>replayFileDelete\<close> and \<open>replayFileOverwrite\<close> share, line for line:
  parent directory, copy of the backup, mode, modification time, removal of the backup.\<close>

definition restoreFromBackup :: "Entry \<Rightarrow> OriginalFile \<Rightarrow> ReplayOptions \<Rightarrow> world \<Rightarrow> action \<times> world" where
  "restoreFromBackup entry orig opts w =
     (case os_MkdirAll w (filepath_Dir (Path entry)) 0x1ED of
        (Some err, w1) \<Rightarrow> ((''error'', Some (Wrapped ''create parent directory'' err)), w1)
      | (None, w1) \<Rightarrow>
          (case copyFile w1 (BackupPath orig) (Path entry) of
             (Some err, w2) \<Rightarrow> ((''error'', Some (Wrapped ''restore from backup'' err)), w2)
           | (None, w2) \<Rightarrow>
               (let w3 = snd (os_Chmod w2 (Path entry) (OMode orig));
                    w4 = (if ModTime orig \<noteq> 0 then snd (os_Chtimes w3 (Path entry) (ModTime orig))
                          else w3);
                    w5 = (if \<not> KeepBackups opts then snd (os_Remove w4 (BackupPath orig)) else w4)
                in ((''restored'', None), w5))))"

definition replayFileDelete :: "Entry \<Rightarrow> ReplayOptions \<Rightarrow> world \<Rightarrow> action \<times> world" where
  "replayFileDelete entry opts w =
     (case Original entry of
        None \<Rightarrow> ((''error'', Some (ErrorString ''no original file information'')), w)
      | Some orig \<Rightarrow>
          (case os_Lstat w (Path entry) of
             Inr info \<Rightarrow> ((''skip (exists)'', Some errSkipped), w)
           | Inl err \<Rightarrow>
               if BackupPath orig = [] then ((''error'', Some (ErrorString ''no backup path'')), w)
               else if DryRun opts then ((''would restore'', None), w)
               else restoreFromBackup entry orig opts w))"

definition replayFileOverwrite :: "Entry \<Rightarrow> ReplayOptions \<Rightarrow> world \<Rightarrow> action \<times> world" where
  "replayFileOverwrite entry opts w =
     (case Original entry of
        None \<Rightarrow> ((''error'', Some (ErrorString ''no original file information'')), w)
      | Some orig \<Rightarrow>
          if BackupPath orig = [] then ((''error'', Some (ErrorString ''no backup path'')), w)
          else
            (case (if Checksum entry \<noteq> [] then
                     (case VerifyChecksum w (Path entry) (Checksum entry) of
                        (match, Some err) \<Rightarrow>
                          if \<not> os_IsNotExist err
                          then Some (''error'', Wrapped ''verify checksum'' err)
                          else if \<not> match \<and> \<not> os_IsNotExist err
                          then Some (''modified'', errModified)
                          else None
                      | (match, None) \<Rightarrow>
                          if \<not> match then Some (''modified'', errModified) else None)
                   else None) of
               Some (label, err) \<Rightarrow> ((label, Some err), w)
             | None \<Rightarrow>
                 if DryRun opts then ((''would restore'', None), w)
                 else restoreFromBackup entry orig opts (snd (os_Remove w (Path entry)))))"

definition replayDirCreate :: "Entry \<Rightarrow> ReplayOptions \<Rightarrow> world \<Rightarrow> action \<times> world" where
  "replayDirCreate entry opts w =
     (case os_Lstat w (Path entry) of
        Inl err \<Rightarrow>
          if os_IsNotExist err then ((''skip (not found)'', Some errSkipped), w)
          else ((''error'', Some (Wrapped ''stat directory'' err)), w)
      | Inr info \<Rightarrow>
          if \<not> IsDir info then ((''skip (not a directory)'', Some errSkipped), w)
          else if DryRun opts then ((''would remove'', None), w)
          else
            (case os_Remove w (Path entry) of
               (Some err, w') \<Rightarrow>
                 if os_IsExist err \<or> isNotEmpty err then ((''skip (not empty)'', Some errSkipped), w')
                 else ((''error'', Some (Wrapped ''remove directory'' err)), w')
             | (None, w') \<Rightarrow> ((''removed'', None), w')))"

definition replaySymlinkCreate :: "Entry \<Rightarrow> ReplayOptions \<Rightarrow> world \<Rightarrow> action \<times> world" where
  "replaySymlinkCreate entry opts w =
     (case os_Lstat w (Path entry) of
        Inl err \<Rightarrow>
          if os_IsNotExist err then ((''skip (not found)'', Some errSkipped), w)
          else ((''error'', Some (Wrapped ''stat symlink'' err)), w)
      | Inr info \<Rightarrow>
          if \<not> IsSymlink info then ((''skip (not a symlink)'', Some errSkipped), w)
          else
            (case (if Target entry \<noteq> [] then
                     (case os_Readlink w (Path entry) of
                        Inl err \<Rightarrow> Some (''error'', Wrapped ''read symlink'' err)
                      | Inr target \<Rightarrow>
                          if target \<noteq> Target entry then Some (''modified'', errModified) else None)
                   else None) of
               Some (label, err) \<Rightarrow> ((label, Some err), w)
             | None \<Rightarrow>
                 if DryRun opts then ((''would remove'', None), w)
                 else
                   (case os_Remove w (Path entry) of
                      (Some err, w') \<Rightarrow> ((''error'', Some (Wrapped ''remove symlink'' err)), w')
                    | (None, w') \<Rightarrow> ((''removed'', None), w'))))"

definition replayHardlinkCreate :: "Entry \<Rightarrow> ReplayOptions \<Rightarrow> world \<Rightarrow> action \<times> world" where
  "replayHardlinkCreate entry opts w =
     (case os_Lstat w (Path entry) of
        Inl err \<Rightarrow>
          if os_IsNotExist err then ((''skip (not found)'', Some errSkipped), w)
          else ((''error'', Some (Wrapped ''stat hardlink'' err)), w)
      | Inr info \<Rightarrow>
          if \<not> IsRegular info then ((''skip (not a file)'', Some errSkipped), w)
          else if DryRun opts then ((''would remove'', None), w)
          else
            (case os_Remove w (Path entry) of
               (Some err, w') \<Rightarrow> ((''error'', Some (Wrapped ''remove hardlink'' err)), w')
             | (None, w') \<Rightarrow> ((''removed'', None), w')))"

definition replayEntry :: "Entry \<Rightarrow> ReplayOptions \<Rightarrow> world \<Rightarrow> action \<times> world" where
  "replayEntry entry opts w =
     (if Op entry = OpFileCreate then replayFileCreate entry opts w
      else if Op entry = OpFileDelete then replayFileDelete entry opts w
      else if Op entry = OpFileOverwrite then replayFileOverwrite entry opts w
      else if Op entry = OpDirCreate then replayDirCreate entry opts w
      else if Op entry = OpSymlinkCreate then replaySymlinkCreate entry opts w
      else if Op entry = OpHardlinkCreate then replayHardlinkCreate entry opts w
      else ((''unknown'', Some (ErrorString (''unknown operation: '' @ Op entry))), w))"

text \<open>
  The state of the loop of \<open>ReverseReplay\<close>: the result so far, the calls of \<open>OnEntry\<close> so
  far, and the world. \<open>replayStep\<close> is one iteration of the loop body.
\<close>

type_synonym replay_state = "ReplayResult \<times> (Entry \<times> string) list \<times> world"

definition replayStep :: "ReplayOptions \<Rightarrow> Entry \<Rightarrow> replay_state \<Rightarrow> replay_state" where
  "replayStep opts entry s =
     (case s of (result, calls, w) \<Rightarrow>
        (case replayEntry entry opts w of
           ((label, err), w') \<Rightarrow>
             (let calls' = (if OnEntry opts then calls @ [(entry, label)] else calls) in
              case err of
                Some e \<Rightarrow>
                  if errors_Is e errSkipped
                  then (result\<lparr>Skipped := Skipped result + 1\<rparr>, calls', w')
                  else if errors_Is e errModified
                  then
                    (let result1 = result\<lparr>ModifiedFiles := ModifiedFiles result @ [Path entry]\<rparr> in
                     if \<not> Force opts
                     then (result1\<lparr>Errors := Errors result1 @ [\<lparr>REntry = entry, Err = e\<rparr>]\<rparr>,
                           calls', w')
                     else (result1\<lparr>Processed := Processed result1 + 1\<rparr>, calls', w'))
                  else (result\<lparr>Errors := Errors result @ [\<lparr>REntry = entry, Err = e\<rparr>]\<rparr>, calls', w')
              | None \<Rightarrow> (result\<lparr>Processed := Processed result + 1\<rparr>, calls', w'))))"

text \<open>The loop runs from the last entry to the first: a left fold over the reversed list.\<close>

fun replayLoop :: "ReplayOptions \<Rightarrow> Entry list \<Rightarrow> replay_state \<Rightarrow> replay_state" where
  "replayLoop opts [] s = s"
| "replayLoop opts (entry # rest) s = replayLoop opts rest (replayStep opts entry s)"

definition empty_ReplayResult :: ReplayResult where
  "empty_ReplayResult = \<lparr>Processed = 0, Skipped = 0, Errors = [], ModifiedFiles = []\<rparr>"

text \<open>\<open>ReverseReplay\<close> returns the result, the top-level error (always \<open>nil\<close> in the source),
  the calls of \<open>OnEntry\<close>, and the world it leaves.\<close>

definition ReverseReplay ::
  "Ledger \<Rightarrow> ReplayOptions \<Rightarrow> world \<Rightarrow> (ReplayResult \<times> error option) \<times> (Entry \<times> string) list \<times> world" where
  "ReverseReplay l opts w =
     (case replayLoop opts (rev (Entries l)) (empty_ReplayResult, [], w) of
        (result, calls, w') \<Rightarrow> ((result, None), calls, w'))"

section \<open>The ledger file (\<open>ledger.go\<close>)\<close>

text \<open>\<open>%d\<close> of a line number.\<close>

definition digit_char :: "nat \<Rightarrow> char" where
  "digit_char d = char_of (48 + d)"

function show_nat :: "nat \<Rightarrow> string" where
  "show_nat n = (if n < 10 then [digit_char n] else show_nat (n div 10) @ [digit_char (n mod 10)])"
  by pat_completeness auto
termination
  by (relation "measure id") auto

declare show_nat.simps [simp del]

definition ledger_Path :: "path \<Rightarrow> string \<Rightarrow> path" where
  "ledger_Path dir pkg = filepath_Join dir (pkg @ ''.jsonl'')"

definition Exists :: "world \<Rightarrow> path \<Rightarrow> string \<Rightarrow> bool" where
  "Exists w dir pkg = (case os_Stat w (ledger_Path dir pkg) of Inl err \<Rightarrow> False | Inr info \<Rightarrow> True)"

text \<open>\<open>writeJSON\<close>, once for each of the two types it is called with: one \<open>Write\<close> of the
  whole line.\<close>

definition write_line :: "Ledger \<Rightarrow> string \<Rightarrow> world \<Rightarrow> error option \<times> world" where
  "write_line l data w =
     (case lfile l of
        None \<Rightarrow> (Some (ErrorString ''invalid argument''), w)
      | Some f \<Rightarrow> os_Write w f (data @ [CHR 0x0A]))"

definition writeJSON_Header :: "Ledger \<Rightarrow> Header \<Rightarrow> world \<Rightarrow> error option \<times> world" where
  "writeJSON_Header l v w =
     (case marshal_Header w v of Inl err \<Rightarrow> (Some err, w) | Inr data \<Rightarrow> write_line l data w)"

definition writeJSON_Entry :: "Ledger \<Rightarrow> Entry \<Rightarrow> world \<Rightarrow> error option \<times> world" where
  "writeJSON_Entry l v w =
     (case marshal_Entry w v of Inl err \<Rightarrow> (Some err, w) | Inr data \<Rightarrow> write_line l data w)"

definition Create :: "path \<Rightarrow> string \<Rightarrow> string \<Rightarrow> world \<Rightarrow> (error + Ledger) \<times> world" where
  "Create dir pkg source w =
     (case os_MkdirAll w dir 0x1ED of
        (Some err, w1) \<Rightarrow> (Inl (Wrapped ''create ledger directory'' err), w1)
      | (None, w1) \<Rightarrow>
          (let path = ledger_Path dir pkg in
           case os_Stat w1 path of
             Inr info \<Rightarrow> (Inl (ErrorString (''ledger already exists for package '' @ pkg)), w1)
           | Inl nothing \<Rightarrow>
               (case os_OpenFile_excl w1 path 0x1A4 of
                  (Inl err, w2) \<Rightarrow> (Inl (Wrapped ''create ledger file'' err), w2)
                | (Inr f, w2) \<Rightarrow>
                    (let header = \<lparr>Version = CurrentVersion, Package = pkg, InstalledAt = now w2,
                                   Source = source, SourceChecksum = []\<rparr>;
                         l = \<lparr>LHeader = header, Entries = [], lpath = path, lfile = Some f\<rparr>
                     in case writeJSON_Header l header w2 of
                          (Some err, w3) \<Rightarrow>
                            (Inl (Wrapped ''write header'' err), snd (os_Remove w3 path))
                        | (None, w3) \<Rightarrow> (Inr l, w3)))))"

definition Record ::
  "Ledger \<Rightarrow> Entry \<Rightarrow> world \<Rightarrow> error option \<times> Ledger \<times> world" where
  "Record l entry0 w =
     (if lfile l = None then (Some (ErrorString ''ledger not open for writing''), l, w)
      else
        (let entry = (if Timestamp entry0 = 0 then entry0\<lparr>Timestamp := now w\<rparr> else entry0) in
         case writeJSON_Entry l entry w of
           (Some err, w1) \<Rightarrow> (Some (Wrapped ''write entry'' err), l, w1)
         | (None, w1) \<Rightarrow> (None, l\<lparr>Entries := Entries l @ [entry]\<rparr>, w1)))"

definition Close :: "Ledger \<Rightarrow> error option \<times> Ledger" where
  "Close l = (None, l\<lparr>lfile := None\<rparr>)"

definition Delete :: "Ledger \<Rightarrow> world \<Rightarrow> error option \<times> Ledger \<times> world" where
  "Delete l w = (case os_Remove w (lpath l) of (err, w1) \<Rightarrow> (err, l\<lparr>lfile := None\<rparr>, w1))"

text \<open>
  \<open>bufio.Scanner\<close> with \<open>ScanLines\<close> and its default buffer: the tokens are the lines
  without their end-of-line marker (a newline, with one carriage return before it dropped), a
  last line without newline counts when it is not empty, and a line of
  \<open>MaxScanTokenSize\<close> bytes or more stops the scanner with \<open>ErrTooLong\<close>. The first
  argument of \<open>scan\<close> is the line read so far, reversed.
\<close>

definition MaxScanTokenSize :: nat where
  "MaxScanTokenSize = 65536"

definition ErrTooLong :: error where
  "ErrTooLong = ErrorString ''bufio.Scanner: token too long''"

definition dropCR :: "string \<Rightarrow> string" where
  "dropCR data = (if data \<noteq> [] \<and> last data = CHR 0x0D then butlast data else data)"

fun scan :: "string \<Rightarrow> string \<Rightarrow> string list \<times> error option" where
  "scan acc [] = (if acc = [] then ([], None) else ([dropCR (rev acc)], None))"
| "scan acc (c # cs) =
     (if c = CHR 0x0A then (case scan [] cs of (ls, e) \<Rightarrow> (dropCR (rev acc) # ls, e))
      else if MaxScanTokenSize \<le> length acc + 1 then ([], Some ErrTooLong)
      else scan (c # acc) cs)"

text \<open>The body of the loop of \<open>OpenPath\<close>, over the tokens; \<open>n\<close> is \<open>lineNum\<close> before
  the line.\<close>

fun parse_lines :: "world \<Rightarrow> nat \<Rightarrow> string list \<Rightarrow> Ledger \<Rightarrow> error + Ledger" where
  "parse_lines w n [] l = Inr l"
| "parse_lines w n (line # rest) l =
     (let lineNum = n + 1 in
      if lineNum = 1 then
        (case unmarshal_Header w line of
           Inl err \<Rightarrow> Inl (Wrapped ''parse header (line 1)'' err)
         | Inr h \<Rightarrow>
             if Version h > CurrentVersion
             then Inl (ErrorString ''ledger version is newer than supported version'')
             else parse_lines w lineNum rest (l\<lparr>LHeader := h\<rparr>))
      else
        (case unmarshal_Entry w line of
           Inl err \<Rightarrow> Inl (Wrapped (''parse entry (line '' @ show_nat lineNum @ '')'') err)
         | Inr entry \<Rightarrow> parse_lines w lineNum rest (l\<lparr>Entries := Entries l @ [entry]\<rparr>)))"

definition OpenPath :: "world \<Rightarrow> path \<Rightarrow> error + Ledger" where
  "OpenPath w path =
     (case os_Open w path of
        Inl err \<Rightarrow> Inl (Wrapped ''open ledger file'' err)
      | Inr f \<Rightarrow>
          (let l = \<lparr>LHeader = zero_Header, Entries = [], lpath = path, lfile = None\<rparr> in
           case os_Read w f of
             Inl err \<Rightarrow> Inl (Wrapped ''read ledger'' err)
           | Inr content \<Rightarrow>
               (case scan [] content of
                  (lines, serr) \<Rightarrow>
                    (case parse_lines w 0 lines l of
                       Inl err \<Rightarrow> Inl err
                     | Inr l' \<Rightarrow>
                         (case serr of
                            Some err \<Rightarrow> Inl (Wrapped ''read ledger'' err)
                          | None \<Rightarrow>
                              if length lines = 0 then Inl (ErrorString ''ledger file is empty'')
                              else Inr l')))))"

definition Open :: "world \<Rightarrow> path \<Rightarrow> string \<Rightarrow> error + Ledger" where
  "Open w dir pkg = OpenPath w (ledger_Path dir pkg)"

section \<open>The recorder (\<open>record.go\<close>)\<close>

text \<open>The recorder holds a pointer to the ledger; in the model it holds the ledger, and
  every method that records returns the recorder with the ledger as it is afterwards.\<close>

record Recorder =
  ledger :: Ledger
  backupDir :: path
  pkg :: string

definition NewRecorder :: "Ledger \<Rightarrow> path \<Rightarrow> Recorder" where
  "NewRecorder l dir = \<lparr>ledger = l, backupDir = dir, pkg = Package (LHeader l)\<rparr>"

definition record_entry :: "Recorder \<Rightarrow> Entry \<Rightarrow> world \<Rightarrow> error option \<times> Recorder \<times> world" where
  "record_entry r entry w =
     (case Record (ledger r) entry w of (err, l, w1) \<Rightarrow> (err, r\<lparr>ledger := l\<rparr>, w1))"

definition createBackup :: "Recorder \<Rightarrow> path \<Rightarrow> string \<Rightarrow> world \<Rightarrow> (error + path) \<times> world" where
  "createBackup r path checksum w =
     (let pkgBackupDir = filepath_Join (backupDir r) (pkg r) in
      case os_MkdirAll w pkgBackupDir 0x1ED of
        (Some err, w1) \<Rightarrow> (Inl (Wrapped ''create backup directory'' err), w1)
      | (None, w1) \<Rightarrow>
          (let backupPath = filepath_Join pkgBackupDir checksum in
           case os_Stat w1 backupPath of
             Inr info \<Rightarrow> (Inr backupPath, w1)
           | Inl nothing \<Rightarrow>
               (case os_Open w1 path of
                  Inl err \<Rightarrow> (Inl err, w1)
                | Inr src \<Rightarrow>
                    (case os_Create w1 backupPath of
                       (Inl err, w2) \<Rightarrow> (Inl err, w2)
                     | (Inr dst, w2) \<Rightarrow>
                         (case os_Read w2 src of
                            Inl err \<Rightarrow> (Inl err, snd (os_Remove w2 backupPath))
                          | Inr c \<Rightarrow>
                              (case os_Write w2 dst c of
                                 (Some err, w3) \<Rightarrow> (Inl err, snd (os_Remove w3 backupPath))
                               | (None, w3) \<Rightarrow> (Inr backupPath, w3)))))))"

definition RecordFileCreate :: "Recorder \<Rightarrow> path \<Rightarrow> world \<Rightarrow> error option \<times> Recorder \<times> world" where
  "RecordFileCreate r path w =
     (case os_Lstat w path of
        Inl err \<Rightarrow> (Some (Wrapped ''stat file'' err), r, w)
      | Inr info \<Rightarrow>
          (case Checksum_file w path of
             Inl err \<Rightarrow> (Some (Wrapped ''compute checksum'' err), r, w)
           | Inr checksum \<Rightarrow>
               record_entry r
                 (zero_Entry\<lparr>Op := OpFileCreate, Path := path, Timestamp := now w,
                    Mode := Perm info, Size := node_Size info, Checksum := checksum,
                    UID := fst (getOwnership info), GID := snd (getOwnership info)\<rparr>) w))"

definition RecordFileDelete :: "Recorder \<Rightarrow> path \<Rightarrow> world \<Rightarrow> error option \<times> Recorder \<times> world" where
  "RecordFileDelete r path w =
     (case os_Lstat w path of
        Inl err \<Rightarrow> (Some (Wrapped ''stat file'' err), r, w)
      | Inr info \<Rightarrow>
          if IsSymlink info then
            (case os_Readlink w path of
               Inl err \<Rightarrow> (Some (Wrapped ''read symlink'' err), r, w)
             | Inr target \<Rightarrow>
                 record_entry r
                   (zero_Entry\<lparr>Op := OpFileDelete, Path := path, Timestamp := now w,
                      Original := Some (zero_OriginalFile\<lparr>OMode := Perm info, OTarget := target,
                        ModTime := node_ModTime info, OUID := fst (getOwnership info),
                        OGID := snd (getOwnership info)\<rparr>)\<rparr>) w)
          else
            (case Checksum_file w path of
               Inl err \<Rightarrow> (Some (Wrapped ''compute checksum'' err), r, w)
             | Inr checksum \<Rightarrow>
                 (case createBackup r path checksum w of
                    (Inl err, w1) \<Rightarrow> (Some (Wrapped ''create backup'' err), r, w1)
                  | (Inr backupPath, w1) \<Rightarrow>
                      record_entry r
                        (zero_Entry\<lparr>Op := OpFileDelete, Path := path, Timestamp := now w1,
                           Original := Some \<lparr>OMode = Perm info, OUID = fst (getOwnership info),
                             OGID = snd (getOwnership info), OSize = node_Size info,
                             OChecksum = checksum, BackupPath = backupPath, OTarget = [],
                             ModTime = node_ModTime info\<rparr>\<rparr>) w1)))"

definition RecordFileOverwriteWithBackup ::
  "Recorder \<Rightarrow> path \<Rightarrow> OriginalFile option \<Rightarrow> string \<Rightarrow> int \<Rightarrow> 32 word \<Rightarrow> world \<Rightarrow>
     error option \<times> Recorder \<times> world" where
  "RecordFileOverwriteWithBackup r path orig newChecksum newSize newMode w =
     (case os_Lstat w path of
        Inl err \<Rightarrow> (Some (Wrapped ''stat file'' err), r, w)
      | Inr info \<Rightarrow>
          record_entry r
            (zero_Entry\<lparr>Op := OpFileOverwrite, Path := path, Timestamp := now w,
               Mode := newMode AND 0x1FF, UID := fst (getOwnership info),
               GID := snd (getOwnership info), Size := newSize, Checksum := newChecksum,
               Original := orig\<rparr>) w)"

text \<open>\<open>PrepareOverwrite\<close> returns \<open>(*OriginalFile, error)\<close>: \<open>Inr None\<close> is \<open>(nil, nil)\<close>.\<close>

definition PrepareOverwrite ::
  "Recorder \<Rightarrow> path \<Rightarrow> world \<Rightarrow> (error + OriginalFile option) \<times> world" where
  "PrepareOverwrite r path w =
     (case os_Lstat w path of
        Inl err \<Rightarrow>
          if os_IsNotExist err then (Inr None, w)
          else (Inl (Wrapped ''stat file'' err), w)
      | Inr info \<Rightarrow>
          if IsSymlink info then
            (case os_Readlink w path of
               Inl err \<Rightarrow> (Inl (Wrapped ''read symlink'' err), w)
             | Inr target \<Rightarrow>
                 (Inr (Some (zero_OriginalFile\<lparr>OMode := Perm info, OUID := fst (getOwnership info),
                    OGID := snd (getOwnership info), OTarget := target,
                    ModTime := node_ModTime info\<rparr>)), w))
          else
            (case Checksum_file w path of
               Inl err \<Rightarrow> (Inl (Wrapped ''compute checksum'' err), w)
             | Inr checksum \<Rightarrow>
                 (case createBackup r path checksum w of
                    (Inl err, w1) \<Rightarrow> (Inl (Wrapped ''create backup'' err), w1)
                  | (Inr backupPath, w1) \<Rightarrow>
                      (Inr (Some \<lparr>OMode = Perm info, OUID = fst (getOwnership info),
                         OGID = snd (getOwnership info), OSize = node_Size info,
                         OChecksum = checksum, BackupPath = backupPath, OTarget = [],
                         ModTime = node_ModTime info\<rparr>), w1))))"

definition RecordDirCreate :: "Recorder \<Rightarrow> path \<Rightarrow> world \<Rightarrow> error option \<times> Recorder \<times> world" where
  "RecordDirCreate r path w =
     (case os_Lstat w path of
        Inl err \<Rightarrow> (Some (Wrapped ''stat directory'' err), r, w)
      | Inr info \<Rightarrow>
          record_entry r
            (zero_Entry\<lparr>Op := OpDirCreate, Path := path, Timestamp := now w, Mode := Perm info,
               UID := fst (getOwnership info), GID := snd (getOwnership info)\<rparr>) w)"

definition RecordSymlinkCreate ::
  "Recorder \<Rightarrow> path \<Rightarrow> path \<Rightarrow> world \<Rightarrow> error option \<times> Recorder \<times> world" where
  "RecordSymlinkCreate r path target w =
     (case os_Lstat w path of
        Inl err \<Rightarrow> (Some (Wrapped ''stat symlink'' err), r, w)
      | Inr info \<Rightarrow>
          record_entry r
            (zero_Entry\<lparr>Op := OpSymlinkCreate, Path := path, Timestamp := now w, Mode := Perm info,
               UID := fst (getOwnership info), GID := snd (getOwnership info),
               Target := target\<rparr>) w)"

definition RecordHardlinkCreate ::
  "Recorder \<Rightarrow> path \<Rightarrow> path \<Rightarrow> world \<Rightarrow> error option \<times> Recorder \<times> world" where
  "RecordHardlinkCreate r path target w =
     (case os_Lstat w path of
        Inl err \<Rightarrow> (Some (Wrapped ''stat hardlink'' err), r, w)
      | Inr info \<Rightarrow>
          (case Checksum_file w path of
             Inl err \<Rightarrow> (Some (Wrapped ''compute checksum'' err), r, w)
           | Inr checksum \<Rightarrow>
               record_entry r
                 (zero_Entry\<lparr>Op := OpHardlinkCreate, Path := path, Timestamp := now w,
                    Mode := Perm info, UID := fst (getOwnership info),
                    GID := snd (getOwnership info), Size := node_Size info,
                    Checksum := checksum, Target := target\<rparr>) w))"

section \<open>The step executor (\<open>installer/steps.go\<close>, \<open>installer/installer.go\<close>)\<close>

text \<open>
  An install step as the executor receives it, with its template variables expanded.
  \<open>Src\<close> of a \<open>copy\<close> step is a path below the source directory; \<open>Src\<close> of a
  \<open>symlink\<close> step is the target of the link.
\<close>

record InstallStep =
  SType :: string
  Command :: string
  WorkDir :: path
  Src :: path
  Dest :: path
  SPath :: path
  SMode :: string

definition StepRun :: string where "StepRun = ''run''"
definition StepCopy :: string where "StepCopy = ''copy''"
definition StepMkdir :: string where "StepMkdir = ''mkdir''"
definition StepSymlink :: string where "StepSymlink = ''symlink''"

text \<open>\<open>strconv.ParseUint(s, 8, 32)\<close>.\<close>

fun octal_value :: "nat \<Rightarrow> string \<Rightarrow> nat option" where
  "octal_value acc [] = Some acc"
| "octal_value acc (c # cs) =
     (if 48 \<le> (of_char c :: nat) \<and> (of_char c :: nat) \<le> 55
      then octal_value (8 * acc + (of_char c - 48)) cs else None)"

definition ParseUint_8_32 :: "string \<Rightarrow> error + 32 word" where
  "ParseUint_8_32 s =
     (if s = [] then Inl (ErrorString ''invalid syntax'')
      else case octal_value 0 s of
        None \<Rightarrow> Inl (ErrorString ''invalid syntax'')
      | Some n \<Rightarrow> if n < 2 ^ 32 then Inr (of_nat n) else Inl (ErrorString ''value out of range''))"

definition executeRun :: "InstallStep \<Rightarrow> path \<Rightarrow> world \<Rightarrow> error option \<times> world" where
  "executeRun step srcDir w =
     (let workDir = (if WorkDir step \<noteq> [] then srcDir @ WorkDir step else srcDir) in
      case shell w (Command step) workDir (root w) of
        (Some err, r) \<Rightarrow> (Some (Wrapped ''command failed'' err), w\<lparr>root := r\<rparr>)
      | (None, r) \<Rightarrow> (None, w\<lparr>root := r\<rparr>))"

text \<open>\<open>copyFile\<close> of \<open>steps.go\<close> (the one of \<open>replay.go\<close> has no mode).\<close>

definition steps_copyFile :: "world \<Rightarrow> path \<Rightarrow> path \<Rightarrow> 32 word \<Rightarrow> error option \<times> world" where
  "steps_copyFile w src dest mode =
     (case os_Open w src of
        Inl err \<Rightarrow> (Some (Wrapped ''open source'' err), w)
      | Inr srcFile \<Rightarrow>
          (case os_OpenFile_trunc w dest mode of
             (Inl err, w1) \<Rightarrow> (Some (Wrapped ''create destination'' err), w1)
           | (Inr destFile, w1) \<Rightarrow>
               (case os_Read w1 srcFile of
                  Inl err \<Rightarrow> (Some (Wrapped ''copy'' err), w1)
                | Inr c \<Rightarrow>
                    (case os_Write w1 destFile c of
                       (Some err, w2) \<Rightarrow> (Some (Wrapped ''copy'' err), w2)
                     | (None, w2) \<Rightarrow>
                         (case os_Chmod w2 dest mode of
                            (Some err, w3) \<Rightarrow> (Some (Wrapped ''chmod'' err), w3)
                          | (None, w3) \<Rightarrow> (None, w3))))))"

definition executeCopy ::
  "InstallStep \<Rightarrow> path \<Rightarrow> Recorder \<Rightarrow> world \<Rightarrow> error option \<times> Recorder \<times> world" where
  "executeCopy step srcDir recorder w =
     (let src = srcDir @ Src step; dest = Dest step in
      case (if SMode step \<noteq> [] then
              (case ParseUint_8_32 (SMode step) of
                 Inl err \<Rightarrow> Inl (Wrapped (''invalid mode '' @ SMode step) err)
               | Inr parsed \<Rightarrow> Inr parsed)
            else (case os_Stat w src of Inr info \<Rightarrow> Inr (Perm info) | Inl err \<Rightarrow> Inr 0x1A4)) of
        Inl err \<Rightarrow> (Some err, recorder, w)
      | Inr mode \<Rightarrow>
          (case os_MkdirAll w (filepath_Dir dest) 0x1ED of
             (Some err, w1) \<Rightarrow> (Some (Wrapped ''create directory'' err), recorder, w1)
           | (None, w1) \<Rightarrow>
               (case PrepareOverwrite recorder dest w1 of
                  (Inl err, w2) \<Rightarrow> (Some (Wrapped ''prepare overwrite'' err), recorder, w2)
                | (Inr orig, w2) \<Rightarrow>
                    (case steps_copyFile w2 src dest mode of
                       (Some err, w3) \<Rightarrow> (Some err, recorder, w3)
                     | (None, w3) \<Rightarrow>
                         (case Checksum_file w3 dest of
                            Inl err \<Rightarrow> (Some (Wrapped ''compute checksum'' err), recorder, w3)
                          | Inr checksum \<Rightarrow>
                              (case os_Stat w3 dest of
                                 Inl err \<Rightarrow> (Some (Wrapped ''stat destination'' err), recorder, w3)
                               | Inr info \<Rightarrow>
                                   if orig \<noteq> None
                                   then RecordFileOverwriteWithBackup recorder dest orig checksum
                                          (node_Size info) mode w3
                                   else RecordFileCreate recorder dest w3))))))"

text \<open>The first loop of \<open>mkdirAllRecording\<close>: upwards from the path to the first ancestor
  that exists, collecting what is missing, outermost first.\<close>

function find_missing :: "world \<Rightarrow> path \<Rightarrow> path list \<Rightarrow> error + path list" where
  "find_missing w current toCreate =
     (case os_Stat w current of
        Inr info \<Rightarrow> Inr toCreate
      | Inl err \<Rightarrow>
          if \<not> os_IsNotExist err then Inl (Wrapped ''stat'' err)
          else
            (let toCreate' = current # toCreate; parent = filepath_Dir current in
             if parent = current then Inr toCreate' else find_missing w parent toCreate'))"
  by pat_completeness auto
termination
proof (relation "measure (\<lambda>(w, current, toCreate). length current)")
  show "wf (measure (\<lambda>(w, current, toCreate). length current))"
    by simp
next
  fix w :: world and current :: path and toCreate :: "path list" and a x xa
  assume "xa = filepath_Dir current" and "xa \<noteq> current"
  then show "((w, xa, x), w, current, toCreate) \<in> measure (\<lambda>(w, current, toCreate). length current)"
    by (cases current rule: rev_cases) (simp_all add: filepath_Dir_def)
qed

text \<open>Its second loop: the directories are made in order; the first failure ends it.\<close>

fun mkdir_each :: "world \<Rightarrow> 32 word \<Rightarrow> path list \<Rightarrow> error option \<times> world" where
  "mkdir_each w mode [] = (None, w)"
| "mkdir_each w mode (dir # rest) =
     (case os_Mkdir w dir mode of
        (Some err, w1) \<Rightarrow> (Some (Wrapped ''mkdir'' err), w1)
      | (None, w1) \<Rightarrow> mkdir_each w1 mode rest)"

definition mkdirAllRecording :: "world \<Rightarrow> path \<Rightarrow> 32 word \<Rightarrow> (error + path list) \<times> world" where
  "mkdirAllRecording w path mode =
     (case find_missing w path [] of
        Inl err \<Rightarrow> (Inl err, w)
      | Inr toCreate \<Rightarrow>
          (case mkdir_each w mode toCreate of
             (Some err, w1) \<Rightarrow> (Inl err, w1)
           | (None, w1) \<Rightarrow> (Inr toCreate, w1)))"

fun record_dirs :: "Recorder \<Rightarrow> path list \<Rightarrow> world \<Rightarrow> error option \<times> Recorder \<times> world" where
  "record_dirs recorder [] w = (None, recorder, w)"
| "record_dirs recorder (dir # rest) w =
     (case RecordDirCreate recorder dir w of
        (Some err, recorder1, w1) \<Rightarrow> (Some (Wrapped ''record dir create'' err), recorder1, w1)
      | (None, recorder1, w1) \<Rightarrow> record_dirs recorder1 rest w1)"

definition executeMkdir ::
  "InstallStep \<Rightarrow> Recorder \<Rightarrow> world \<Rightarrow> error option \<times> Recorder \<times> world" where
  "executeMkdir step recorder w =
     (let path = SPath step in
      case (if SMode step \<noteq> [] then
              (case ParseUint_8_32 (SMode step) of
                 Inl err \<Rightarrow> Inl (Wrapped (''invalid mode '' @ SMode step) err)
               | Inr parsed \<Rightarrow> Inr parsed)
            else Inr 0x1ED) of
        Inl err \<Rightarrow> (Some err, recorder, w)
      | Inr mode \<Rightarrow>
          if (case os_Stat w path of Inr info \<Rightarrow> IsDir info | Inl err \<Rightarrow> False)
          then (None, recorder, w)
          else
            (case mkdirAllRecording w path mode of
               (Inl err, w1) \<Rightarrow> (Some err, recorder, w1)
             | (Inr created, w1) \<Rightarrow> record_dirs recorder created w1))"

definition executeSymlink ::
  "InstallStep \<Rightarrow> Recorder \<Rightarrow> world \<Rightarrow> error option \<times> Recorder \<times> world" where
  "executeSymlink step recorder w =
     (let target = Src step; linkPath = Dest step in
      case os_MkdirAll w (filepath_Dir linkPath) 0x1ED of
        (Some err, w1) \<Rightarrow> (Some (Wrapped ''create directory'' err), recorder, w1)
      | (None, w1) \<Rightarrow>
          (case (case os_Lstat w1 linkPath of
                   Inl nothing \<Rightarrow> Inr (False, w1)
                 | Inr info \<Rightarrow>
                     if IsSymlink info \<and> os_Readlink w1 linkPath = Inr target then Inr (True, w1)
                     else
                       (case os_Remove w1 linkPath of
                          (Some err, w2) \<Rightarrow> Inl (Wrapped ''remove existing'' err, w2)
                        | (None, w2) \<Rightarrow> Inr (False, w2))) of
             Inl (err, w2) \<Rightarrow> (Some err, recorder, w2)
           | Inr (True, w2) \<Rightarrow> (None, recorder, w2)
           | Inr (False, w2) \<Rightarrow>
               (case os_Symlink w2 target linkPath of
                  (Some err, w3) \<Rightarrow> (Some (Wrapped ''create symlink'' err), recorder, w3)
                | (None, w3) \<Rightarrow> RecordSymlinkCreate recorder linkPath target w3)))"

definition executeStep ::
  "InstallStep \<Rightarrow> path \<Rightarrow> Recorder \<Rightarrow> world \<Rightarrow> error option \<times> Recorder \<times> world" where
  "executeStep step srcDir recorder w =
     (if SType step = StepRun then
        (case executeRun step srcDir w of (err, w1) \<Rightarrow> (err, recorder, w1))
      else if SType step = StepCopy then executeCopy step srcDir recorder w
      else if SType step = StepMkdir then executeMkdir step recorder w
      else if SType step = StepSymlink then executeSymlink step recorder w
      else (Some (ErrorString (''unknown step type: '' @ SType step)), recorder, w))"

record Installer =
  PackagesDir :: path
  LedgerDir :: path
  BackupDir :: path
  CacheDir :: path
  IDryRun :: bool
  IVerbose :: bool

definition rollback_options :: ReplayOptions where
  "rollback_options = \<lparr>DryRun = False, Force = True, Verbose = False, OnEntry = True,
     KeepBackups = False\<rparr>"

text \<open>\<open>rollback\<close> only reports what the replay returns; what it leaves is the world.\<close>

definition rollback :: "Installer \<Rightarrow> Ledger \<Rightarrow> world \<Rightarrow> world" where
  "rollback i ledg w = snd (snd (ReverseReplay ledg rollback_options w))"

text \<open>
  The loop of \<open>Install\<close> over the steps; \<open>idx\<close> is the index of the first step of the list.
  The recorder and \<open>Install\<close> share one ledger, so the ledger that is rolled back and
  deleted is the recorder's.
\<close>

fun install_steps ::
  "Installer \<Rightarrow> path \<Rightarrow> nat \<Rightarrow> InstallStep list \<Rightarrow> Recorder \<Rightarrow> world \<Rightarrow>
     error option \<times> Recorder \<times> world" where
  "install_steps i srcDir idx [] recorder w = (None, recorder, w)"
| "install_steps i srcDir idx (step # rest) recorder w =
     (case executeStep step srcDir recorder w of
        (Some err, recorder1, w1) \<Rightarrow>
          (let w2 = rollback i (ledger recorder1) w1 in
           case Delete (ledger recorder1) w2 of
             (derr, ledg, w3) \<Rightarrow>
               (Some (Wrapped (''step '' @ show_nat (idx + 1) @ '' ('' @ SType step @ '')'') err),
                recorder1\<lparr>ledger := ledg\<rparr>, w3))
      | (None, recorder1, w1) \<Rightarrow> install_steps i srcDir (idx + 1) rest recorder1 w1)"

fun discard :: "node option \<Rightarrow> errno + node option" where
  "discard n = Inr None"

definition os_RemoveAll :: "world \<Rightarrow> path \<Rightarrow> world" where
  "os_RemoveAll w p = snd (on_root w (alter discard (root w) p))"

text \<open>
  \<open>Install\<close>. What the package definition and the download contribute is given: the result
  of \<open>loadPackage\<close> (the location of the source and the expanded steps, as a function of
  the source directory) and \<open>fetchSource\<close> as a function of the world. Progress messages
  are not modelled.
\<close>

definition Install ::
  "Installer \<Rightarrow> string \<Rightarrow> (error + string \<times> (path \<Rightarrow> InstallStep list)) \<Rightarrow>
     (world \<Rightarrow> (error + path) \<times> world) \<Rightarrow> world \<Rightarrow> error option \<times> world" where
  "Install i name loadPackage fetchSource w =
     (case loadPackage of
        Inl err \<Rightarrow> (Some (Wrapped ''load package'' err), w)
      | Inr (location, expandedSteps) \<Rightarrow>
          if Exists w (LedgerDir i) name
          then (Some (ErrorString (''package is already installed: '' @ name)), w)
          else if IDryRun i then (None, w)
          else
            (case fetchSource w of
               (Inl err, w1) \<Rightarrow> (Some (Wrapped ''fetch source'' err), w1)
             | (Inr srcDir, w1) \<Rightarrow>
                 (case Create (LedgerDir i) name location w1 of
                    (Inl err, w2) \<Rightarrow> (Some (Wrapped ''create ledger'' err), os_RemoveAll w2 srcDir)
                  | (Inr ledg, w2) \<Rightarrow>
                      (case install_steps i srcDir 0 (expandedSteps srcDir)
                              (NewRecorder ledg (BackupDir i)) w2 of
                         (err, recorder, w3) \<Rightarrow> (err, os_RemoveAll w3 srcDir)))))"


section \<open>Notions the properties are stated with\<close>

text \<open>The sum of two results: what a replay adds to the counters and lists of another.\<close>

definition add_result :: "ReplayResult \<Rightarrow> ReplayResult \<Rightarrow> ReplayResult" where
  "add_result a b = \<lparr>Processed = Processed a + Processed b, Skipped = Skipped a + Skipped b,
     Errors = Errors a @ Errors b, ModifiedFiles = ModifiedFiles a @ ModifiedFiles b\<rparr>"

definition known_ops :: "Op list" where
  "known_ops = [OpFileCreate, OpFileDelete, OpFileOverwrite, OpDirCreate, OpSymlinkCreate,
     OpHardlinkCreate]"

text \<open>What one entry contributes to the result when it fails, and when it is refused
  for drift.\<close>

definition error_record :: "Entry \<Rightarrow> error \<Rightarrow> ReplayResult" where
  "error_record e err = \<lparr>Processed = 0, Skipped = 0, Errors = [\<lparr>REntry = e, Err = err\<rparr>],
     ModifiedFiles = []\<rparr>"

definition drift_record :: "Entry \<Rightarrow> ReplayResult" where
  "drift_record e = \<lparr>Processed = 0, Skipped = 0, Errors = [\<lparr>REntry = e, Err = errModified\<rparr>],
     ModifiedFiles = [Path e]\<rparr>"

definition skip_record :: ReplayResult where
  "skip_record = \<lparr>Processed = 0, Skipped = 1, Errors = [], ModifiedFiles = []\<rparr>"

definition call :: "ReplayOptions \<Rightarrow> Entry \<Rightarrow> string \<Rightarrow> (Entry \<times> string) list" where
  "call opts e label = (if OnEntry opts then [(e, label)] else [])"

definition has_backup :: "Entry \<Rightarrow> bool" where
  "has_backup e = (case Original e of Some orig \<Rightarrow> BackupPath orig \<noteq> [] | None \<Rightarrow> False)"

text \<open>
  An entry with a drift sentinel whose state on disk has drifted: a \<open>file_create\<close> entry, or
  a \<open>file_overwrite\<close> entry with a backup path, that has a checksum while its path holds a
  regular file with another digest; or a \<open>symlink_create\<close> entry that has a target while
  its path holds a link to another target.
\<close>

definition drifted :: "Entry \<Rightarrow> world \<Rightarrow> bool" where
  "drifted e w =
     (if Op e = OpFileCreate \<or> Op e = OpFileOverwrite \<and> has_backup e
      then Checksum e \<noteq> [] \<and>
        (case os_Lstat w (Path e) of Inr (File st c) \<Rightarrow> digest w c \<noteq> Checksum e | _ \<Rightarrow> False)
      else if Op e = OpSymlinkCreate
      then Target e \<noteq> [] \<and>
        (case os_Lstat w (Path e) of Inr (Symlink st t) \<Rightarrow> t \<noteq> Target e | _ \<Rightarrow> False)
      else False)"

text \<open>What a path names, as an option.\<close>

definition entry_at :: "node \<Rightarrow> path \<Rightarrow> node option" where
  "entry_at r p = (case lookup r p of Inr n \<Rightarrow> Some n | Inl e \<Rightarrow> None)"

text \<open>A change of a directory entry is tame when it leaves a directory that is not empty in
  place with its entries: all the changes the calls above make are.\<close>

definition tame :: "(node option \<Rightarrow> errno + node option) \<Rightarrow> bool" where
  "tame f = (\<forall>st e es. case f (Some (Dir st (e # es))) of
       Inl x \<Rightarrow> True
     | Inr None \<Rightarrow> False
     | Inr (Some n) \<Rightarrow> (\<exists>st'. n = Dir st' (e # es)))"

text \<open>A change at \<open>p\<close> keeps the leaves: every file or link at another path is as it was.\<close>

definition keeps_leaves :: "node \<Rightarrow> node \<Rightarrow> path \<Rightarrow> bool" where
  "keeps_leaves r r' p = (\<forall>q n. q \<noteq> p \<longrightarrow> lookup r q = Inr n \<longrightarrow> \<not> IsDir n \<longrightarrow> lookup r' q = Inr n)"

text \<open>
  The entries that record something the install made, the labels that \<open>replayEntry\<close>
  returns along the loop (what \<open>OnEntry\<close> is called with), and the labels that say that
  the path of such an entry is gone: it was removed, or it was not there.
\<close>

definition creation :: "Entry \<Rightarrow> bool" where
  "creation e = (Op e \<in> set [OpFileCreate, OpDirCreate, OpSymlinkCreate, OpHardlinkCreate])"

fun replay_labels :: "ReplayOptions \<Rightarrow> Entry list \<Rightarrow> world \<Rightarrow> string list" where
  "replay_labels opts [] w = []"
| "replay_labels opts (e # rest) w =
     (case replayEntry e opts w of ((label, err), w') \<Rightarrow> label # replay_labels opts rest w')"

definition undone_labels :: "string list" where
  "undone_labels = [''deleted'', ''removed'', ''skip (not found)'']"

text \<open>
  What \<open>Record\<close> does to the timestamp of an entry, a sequence of calls of \<open>Record\<close>,
  a line of the ledger file, and what the round trip asks of \<open>encoding/json\<close>: the line
  of a value has no newline in it, does not end in a carriage return, is shorter than the
  buffer of the scanner, and decodes to the value.
\<close>

definition stamp :: "int \<Rightarrow> Entry \<Rightarrow> Entry" where
  "stamp t e = (if Timestamp e = 0 then e\<lparr>Timestamp := t\<rparr> else e)"


definition line_ok :: "string \<Rightarrow> bool" where
  "line_ok d = (CHR 0x0A \<notin> set d \<and> dropCR d = d \<and> length d < MaxScanTokenSize)"

definition faithful_Header :: "world \<Rightarrow> Header \<Rightarrow> bool" where
  "faithful_Header w h =
     (case marshal_Header w h of Inl err \<Rightarrow> True | Inr d \<Rightarrow> line_ok d \<and> unmarshal_Header w d = Inr h)"


definition text_line :: "string \<Rightarrow> string" where
  "text_line d = d @ [CHR 0x0A]"

text \<open>
  For the installer: a recorder that differs from an earlier one by entries added to its
  ledger; what \<open>Install\<close> does to the world after a failed step (the reverse replay of
  the recorder's ledger with the options of \<open>rollback\<close>, then the removal of the ledger
  file); and the error it returns for the step with the given number.
\<close>

definition recorded_more :: "Recorder \<Rightarrow> Recorder \<Rightarrow> bool" where
  "recorded_more r r' =
     (backupDir r' = backupDir r \<and> pkg r' = pkg r \<and> LHeader (ledger r') = LHeader (ledger r) \<and>
      lpath (ledger r') = lpath (ledger r) \<and> lfile (ledger r') = lfile (ledger r) \<and>
      prefix (Entries (ledger r)) (Entries (ledger r')))"

definition rolled_back :: "Recorder \<Rightarrow> world \<Rightarrow> world" where
  "rolled_back r w =
     snd (os_Remove (snd (snd (ReverseReplay (ledger r) rollback_options w))) (lpath (ledger r)))"

definition step_error :: "nat \<Rightarrow> InstallStep \<Rightarrow> error \<Rightarrow> error" where
  "step_error n step err = Wrapped (''step '' @ show_nat n @ '' ('' @ SType step @ '')'') err"

text \<open>
  The two destructive operations of the recorder as one: \<open>PrepareOverwrite\<close> hands the
  original out, \<open>RecordFileDelete\<close> puts it in the entry it records, the last of the
  ledger. And the place of a backup in the store.
\<close>

datatype destructive = Overwrite | Deletion

fun displace ::
  "destructive \<Rightarrow> Recorder \<Rightarrow> path \<Rightarrow> world \<Rightarrow> (error + OriginalFile option) \<times> Recorder \<times> world" where
  "displace Overwrite r p w = (case PrepareOverwrite r p w of (res, w1) \<Rightarrow> (res, r, w1))"
| "displace Deletion r p w =
     (case RecordFileDelete r p w of
        (Some err, r1, w1) \<Rightarrow> (Inl err, r1, w1)
      | (None, r1, w1) \<Rightarrow> (Inr (Original (last (Entries (ledger r1)))), r1, w1))"

definition backup_path :: "Recorder \<Rightarrow> string \<Rightarrow> path" where
  "backup_path r checksum = filepath_Join (filepath_Join (backupDir r) (pkg r)) checksum"

section \<open>Scenarios\<close>

text \<open>
  The install of scenario S1 of the specification: the directories \<open>/tmp/t/a\<close> and
  \<open>/tmp/t/a/b\<close> and the file \<open>/tmp/t/a/b/rg\<close>. The digest of the example world puts
  \<open>sha256:\<close> before the content; its JSON functions know the entries of the scenario.
\<close>

definition dir_st :: stat_t where
  "dir_st = \<lparr>st_mode = 0x1ED, st_uid = 0, st_gid = 0, st_mtime = 1\<rparr>"

definition file_st :: stat_t where
  "file_st = \<lparr>st_mode = 0x1ED, st_uid = 0, st_gid = 0, st_mtime = 2\<rparr>"

definition p_a :: path where "p_a = [''tmp'', ''t'', ''a'']"
definition p_b :: path where "p_b = [''tmp'', ''t'', ''a'', ''b'']"
definition p_rg :: path where "p_rg = [''tmp'', ''t'', ''a'', ''b'', ''rg'']"

definition tree_rg :: "node \<Rightarrow> node" where
  "tree_rg n = Dir dir_st [(''tmp'', Dir dir_st [(''t'', Dir dir_st [(''a'', Dir dir_st
     [(''b'', Dir dir_st [(''rg'', n)])])])])]"

definition tree_b :: node where
  "tree_b = Dir dir_st [(''tmp'', Dir dir_st [(''t'', Dir dir_st [(''a'', Dir dir_st
     [(''b'', Dir dir_st [])])])])]"

definition tree_t :: node where
  "tree_t = Dir dir_st [(''tmp'', Dir dir_st [(''t'', Dir dir_st [])])]"

definition e_a :: Entry where
  "e_a = zero_Entry\<lparr>Op := OpDirCreate, Path := p_a, Timestamp := 10, Mode := 0x1ED\<rparr>"

definition e_b :: Entry where
  "e_b = zero_Entry\<lparr>Op := OpDirCreate, Path := p_b, Timestamp := 11, Mode := 0x1ED\<rparr>"

definition e_rg :: Entry where
  "e_rg = zero_Entry\<lparr>Op := OpFileCreate, Path := p_rg, Timestamp := 12, Mode := 0x1ED, Size := 6,
     Checksum := ''sha256:binary''\<rparr>"

definition e_bogus :: Entry where
  "e_bogus = zero_Entry\<lparr>Op := ''file_rename'', Path := p_rg, Timestamp := 13\<rparr>"

definition e_hardlink :: Entry where
  "e_hardlink = zero_Entry\<lparr>Op := OpHardlinkCreate, Path := p_rg, Timestamp := 12, Mode := 0x1ED,
     Size := 6, Checksum := ''sha256:binary'', Target := [''opt'', ''rg'']\<rparr>"

definition e_unlinked :: Entry where
  "e_unlinked = zero_Entry\<lparr>Op := OpFileDelete, Path := p_rg, Timestamp := 12,
     Original := Some (zero_OriginalFile\<lparr>OMode := 0x1FF, OTarget := [''opt'', ''rg''],
       ModTime := 5\<rparr>)\<rparr>"

definition header_rg :: Header where
  "header_rg = \<lparr>Version = 1, Package = ''ripgrep'', InstalledAt = 100, Source = ''src'',
     SourceChecksum = []\<rparr>"

definition show_path :: "path \<Rightarrow> string" where
  "show_path p = concat (map (\<lambda>c. CHR ''/'' # c) p)"

definition toy_marshal_Header :: "Header \<Rightarrow> error + string" where
  "toy_marshal_Header h = Inr (''ledger '' @ Package h)"

definition toy_unmarshal_Header :: "string \<Rightarrow> error + Header" where
  "toy_unmarshal_Header s =
     (if s = ''ledger ripgrep'' then Inr header_rg else Inl (ErrorString ''invalid character''))"

definition toy_marshal_Entry :: "Entry \<Rightarrow> error + string" where
  "toy_marshal_Entry e =
     Inr (Op e @ '' '' @ show_path (Path e) @ '' at '' @ show_nat (nat (Timestamp e)))"

definition known_entries :: "Entry list" where
  "known_entries = [e_a, e_b, e_rg, e_a\<lparr>Timestamp := 100\<rparr>]"

definition toy_unmarshal_Entry :: "string \<Rightarrow> error + Entry" where
  "toy_unmarshal_Entry s =
     (case find (\<lambda>e. toy_marshal_Entry e = Inr s) known_entries of
        None \<Rightarrow> Inl (ErrorString ''invalid character'')
      | Some e \<Rightarrow> Inr e)"

definition mk_world :: "node \<Rightarrow> world" where
  "mk_world r = \<lparr>root = r, now = 100, euid = 0, egid = 0, umask = 0x12,
     digest = (\<lambda>c. ''sha256:'' @ c),
     marshal_Header = toy_marshal_Header, marshal_Entry = toy_marshal_Entry,
     unmarshal_Header = toy_unmarshal_Header, unmarshal_Entry = toy_unmarshal_Entry,
     shell = (\<lambda>cmd dir n. (None, n))\<rparr>"

definition ledger_of :: "Entry list \<Rightarrow> Ledger" where
  "ledger_of es = \<lparr>LHeader = header_rg, Entries = es, lpath = [''ledgers'', ''ripgrep.jsonl''],
     lfile = None\<rparr>"

definition uninstall_options :: ReplayOptions where
  "uninstall_options = \<lparr>DryRun = False, Force = False, Verbose = True, OnEntry = True,
     KeepBackups = False\<rparr>"

text \<open>
  Scenario S2 of the specification: the install has written \<open>new\<close> over \<open>/etc/config\<close>,
  which held \<open>old\<close>; the backup of the original is in the store of the package. The tree
  is given by what is at \<open>/etc/config\<close> and what is at the backup path.
\<close>

definition p_cfg :: path where "p_cfg = [''etc'', ''config'']"
definition p_bak :: path where "p_bak = [''backups'', ''ripgrep'', ''sha256:old'']"

definition cfg_st :: stat_t where
  "cfg_st = \<lparr>st_mode = 0x1A4, st_uid = 0, st_gid = 0, st_mtime = 7\<rparr>"

definition bak_st :: stat_t where
  "bak_st = \<lparr>st_mode = 0x1A4, st_uid = 0, st_gid = 0, st_mtime = 100\<rparr>"

definition tree_cfg :: "node option \<Rightarrow> node option \<Rightarrow> node" where
  "tree_cfg cfg bak =
     Dir dir_st
       [(''etc'', Dir dir_st (case cfg of None \<Rightarrow> [] | Some n \<Rightarrow> [(''config'', n)])),
        (''backups'', Dir dir_st
           [(''ripgrep'', Dir dir_st (case bak of None \<Rightarrow> [] | Some n \<Rightarrow> [(''sha256:old'', n)]))])]"

definition orig_cfg :: OriginalFile where
  "orig_cfg = \<lparr>OMode = 0x1A4, OUID = 0, OGID = 0, OSize = 3, OChecksum = ''sha256:old'',
     BackupPath = p_bak, OTarget = [], ModTime = 7\<rparr>"

definition e_cfg :: Entry where
  "e_cfg = zero_Entry\<lparr>Op := OpFileOverwrite, Path := p_cfg, Timestamp := 14, Mode := 0x1A4,
     Size := 3, Checksum := ''sha256:new'', Original := Some orig_cfg\<rparr>"

text \<open>The same overwrite when the installed content equals the original content.\<close>

definition e_same :: Entry where
  "e_same = e_cfg\<lparr>Checksum := ''sha256:old''\<rparr>"

definition recorder_rg :: Recorder where
  "recorder_rg = \<lparr>ledger = (ledger_of [])\<lparr>lfile := Some [''ledgers'', ''ripgrep.jsonl'']\<rparr>,
     backupDir = [''backups''], pkg = ''ripgrep''\<rparr>"

text \<open>The install has deleted \<open>/etc/config\<close> after a backup.\<close>

definition e_gone :: Entry where
  "e_gone = zero_Entry\<lparr>Op := OpFileDelete, Path := p_cfg, Timestamp := 15, Original := Some orig_cfg\<rparr>"

text \<open>
  The ledger of \<open>ripgrep\<close> in the directory \<open>/ledgers\<close>, open for writing, and the tree
  that holds its file with the given lines. \<open>e_unstamped\<close> is the first entry of S1 as a
  caller passes it to \<open>Record\<close> without a timestamp.
\<close>

definition ledger_open :: "Entry list \<Rightarrow> Ledger" where
  "ledger_open es = (ledger_of es)\<lparr>lfile := Some [''ledgers'', ''ripgrep.jsonl'']\<rparr>"

definition tree_ledger :: "string list \<Rightarrow> node" where
  "tree_ledger ls =
     Dir dir_st
       [(''tmp'', Dir dir_st [(''t'', Dir dir_st [])]),
        (''ledgers'', Dir (dir_st\<lparr>st_mtime := 100\<rparr>)
           [(''ripgrep.jsonl'', File bak_st (concat (map text_line ls)))])]"

definition e_unstamped :: Entry where
  "e_unstamped = e_a\<lparr>Timestamp := 0\<rparr>"

text \<open>
  An install that fails: the source directory \<open>/cache/ripgrep\<close> is empty, the first
  step makes \<open>/tmp/t/a\<close>, and the second is to copy \<open>rg\<close> from the source directory
  to \<open>/tmp/t/a/rg\<close>. The tree is given by what is in \<open>/tmp/t\<close>, in \<open>/cache\<close>
  and, when it exists, in \<open>/ledgers\<close>.
\<close>

definition installer_rg :: Installer where
  "installer_rg = \<lparr>PackagesDir = [''packages''], LedgerDir = [''ledgers''],
     BackupDir = [''backups''], CacheDir = [''cache''], IDryRun = False, IVerbose = False\<rparr>"

definition zero_InstallStep :: InstallStep where
  "zero_InstallStep = \<lparr>SType = [], Command = [], WorkDir = [], Src = [], Dest = [], SPath = [],
     SMode = []\<rparr>"

definition step_mkdir :: InstallStep where
  "step_mkdir = zero_InstallStep\<lparr>SType := StepMkdir, SPath := p_a\<rparr>"

definition step_copy :: InstallStep where
  "step_copy = zero_InstallStep\<lparr>SType := StepCopy, Src := [''rg''],
     Dest := [''tmp'', ''t'', ''a'', ''rg'']\<rparr>"

definition p_src :: path where "p_src = [''cache'', ''ripgrep'']"

definition tree_inst ::
  "(string \<times> node) list \<Rightarrow> (string \<times> node) list \<Rightarrow> string list option \<Rightarrow> node" where
  "tree_inst t cache ledger_lines =
     Dir dir_st
       ([(''tmp'', Dir dir_st [(''t'', Dir dir_st t)]), (''cache'', Dir dir_st cache)] @
        (case ledger_lines of
           None \<Rightarrow> []
         | Some [] \<Rightarrow> [(''ledgers'', Dir (dir_st\<lparr>st_mtime := 100\<rparr>) [])]
         | Some ls \<Rightarrow>
             [(''ledgers'', Dir (dir_st\<lparr>st_mtime := 100\<rparr>)
                [(''ripgrep.jsonl'', File bak_st (concat (map text_line ls)))])]))"

definition recorder_of :: "Entry list \<Rightarrow> Recorder" where
  "recorder_of es = \<lparr>ledger = ledger_open es, backupDir = [''backups''], pkg = ''ripgrep''\<rparr>"

text \<open>Two files with the same content, \<open>/etc/config\<close> and \<open>/etc/motd\<close>, the store of
  the package with or without the backup of that content, and the ledger file with the
  given lines.\<close>

definition p_motd :: path where "p_motd = [''etc'', ''motd'']"

definition tree_dup :: "node option \<Rightarrow> string list \<Rightarrow> node" where
  "tree_dup bak ls =
     Dir dir_st
       [(''etc'', Dir dir_st [(''config'', File cfg_st ''old''), (''motd'', File cfg_st ''old'')]),
        (''backups'', Dir dir_st
           [(''ripgrep'', Dir dir_st (case bak of None \<Rightarrow> [] | Some n \<Rightarrow> [(''sha256:old'', n)]))]),
        (''ledgers'', Dir dir_st [(''ripgrep.jsonl'', File bak_st (concat (map text_line ls)))])]"

definition e_motd :: Entry where
  "e_motd = zero_Entry\<lparr>Op := OpFileDelete, Path := p_motd, Timestamp := 100,
     Original := Some orig_cfg\<rparr>"

section \<open>Evaluation\<close>

lemma follow_unfold:
  "follow k r p =
     (case lookup r p of
        Inr (Symlink st t) \<Rightarrow> if k = 0 then Inl ELOOP else follow (k - 1) r t
      | _ \<Rightarrow> Inr p)"
  by (cases k) (auto split: sum.splits node.splits)

lemmas os_defs = os_Lstat_def os_Stat_def os_Readlink_def os_Open_def os_Read_def os_Remove_def
  os_MkdirAll_def os_Mkdir_def os_Symlink_def os_OpenFile_trunc_def os_Create_def
  os_OpenFile_excl_def os_OpenFile_append_def os_Write_def os_Chmod_def os_Chtimes_def
  on_root_def new_stat_def MAXSYMLINKS_def follow_unfold filepath_Dir_def filepath_Join_def
  Checksum_file_def VerifyChecksum_def getOwnership_def Perm_def node_ModTime_def

lemmas replay_defs = ReverseReplay_def replayStep_def replayEntry_def replayFileCreate_def
  replayFileDelete_def replayFileOverwrite_def replayDirCreate_def replaySymlinkCreate_def
  replayHardlinkCreate_def restoreFromBackup_def copyFile_def empty_ReplayResult_def
  isNotEmpty_def OpFileCreate_def OpFileDelete_def OpFileOverwrite_def OpDirCreate_def
  OpSymlinkCreate_def OpHardlinkCreate_def

lemmas scenario_defs = mk_world_def dir_st_def file_st_def p_a_def p_b_def p_rg_def tree_rg_def
  tree_b_def tree_t_def e_a_def e_b_def e_rg_def e_bogus_def e_hardlink_def e_unlinked_def
  ledger_of_def uninstall_options_def zero_Entry_def zero_OriginalFile_def header_rg_def
  p_cfg_def p_bak_def cfg_st_def bak_st_def tree_cfg_def orig_cfg_def e_cfg_def e_same_def
  recorder_rg_def e_gone_def ledger_open_def tree_ledger_def e_unstamped_def
  toy_marshal_Header_def toy_unmarshal_Header_def toy_marshal_Entry_def toy_unmarshal_Entry_def
  known_entries_def show_path_def installer_rg_def zero_InstallStep_def step_mkdir_def
  step_copy_def p_src_def tree_inst_def recorder_of_def tree_dup_def p_motd_def e_motd_def

lemma digit_chars:
  "digit_char 0 = CHR ''0''" "digit_char 1 = CHR ''1''" "digit_char 2 = CHR ''2''"
  "digit_char 3 = CHR ''3''" "digit_char 4 = CHR ''4''" "digit_char 5 = CHR ''5''"
  "digit_char 6 = CHR ''6''" "digit_char 7 = CHR ''7''" "digit_char 8 = CHR ''8''"
  "digit_char 9 = CHR ''9''" "digit_char (Suc 0) = CHR ''1''"
  "digit_char (Suc (Suc 0)) = CHR ''2''"
  by code_simp+

lemmas ledger_defs = ledger_Path_def Exists_def write_line_def writeJSON_Header_def
  writeJSON_Entry_def Create_def Record_def Close_def Delete_def MaxScanTokenSize_def
  ErrTooLong_def dropCR_def OpenPath_def Open_def CurrentVersion_def text_line_def
  digit_chars show_nat.simps stamp_def Let_def OpFileCreate_def OpFileDelete_def OpFileOverwrite_def
  OpDirCreate_def OpSymlinkCreate_def OpHardlinkCreate_def

lemmas install_defs = Install_def executeStep_def executeRun_def executeCopy_def
  executeMkdir_def executeSymlink_def steps_copyFile_def mkdirAllRecording_def NewRecorder_def
  record_entry_def RecordFileCreate_def RecordFileOverwriteWithBackup_def RecordDirCreate_def
  RecordSymlinkCreate_def PrepareOverwrite_def createBackup_def rollback_def rollback_options_def
  rolled_back_def step_error_def StepRun_def StepCopy_def StepMkdir_def StepSymlink_def
  ParseUint_8_32_def os_RemoveAll_def

lemma ledger_of_Entries [simp]: "(ledger_of es)\<lparr>Entries := es'\<rparr> = ledger_of es'"
  by (simp add: ledger_of_def)

lemma Entries_ledger_of [simp]: "Entries (ledger_of es) = es"
  by (simp add: ledger_of_def)

lemma scenario_paths [simp]: "Path e_rg = p_rg" "Path e_a = p_a" "Path e_b = p_b"
  by (simp_all add: e_rg_def e_a_def e_b_def zero_Entry_def)

lemma scenario_options [simp]:
  "OnEntry uninstall_options" "\<not> Force uninstall_options" "\<not> DryRun uninstall_options"
  "\<not> KeepBackups uninstall_options"
  by (simp_all add: uninstall_options_def)

section \<open>The loop of the replay\<close>

lemma add_result_empty [simp]:
  "add_result r empty_ReplayResult = r" "add_result empty_ReplayResult r = r"
  by (simp_all add: add_result_def empty_ReplayResult_def)

lemma add_result_assoc: "add_result (add_result a b) c = add_result a (add_result b c)"
  by (simp add: add_result_def)

text \<open>A step adds to the result and to the calls it is given, and what it adds and what
  it does to the world depend on the world alone.\<close>

lemma replayStep_shift:
  "replayStep opts e (r, c, w) =
     (case replayStep opts e (empty_ReplayResult, [], w) of
        (r', c', w') \<Rightarrow> (add_result r r', c @ c', w'))"
  by (simp add: replayStep_def add_result_def empty_ReplayResult_def Let_def
      split: prod.splits option.splits)

lemma replayLoop_shift:
  "replayLoop opts es (r, c, w) =
     (case replayLoop opts es (empty_ReplayResult, [], w) of
        (r', c', w') \<Rightarrow> (add_result r r', c @ c', w'))"
proof (induction es arbitrary: r c w)
  case Nil
  then show ?case by simp
next
  case (Cons e es)
  obtain r1 c1 w1 where s1: "replayStep opts e (empty_ReplayResult, [], w) = (r1, c1, w1)"
    by (cases "replayStep opts e (empty_ReplayResult, [], w)") auto
  obtain r2 c2 w2 where s2: "replayLoop opts es (empty_ReplayResult, [], w1) = (r2, c2, w2)"
    by (cases "replayLoop opts es (empty_ReplayResult, [], w1)") auto
  have a: "replayStep opts e (r, c, w) = (add_result r r1, c @ c1, w1)"
    using replayStep_shift [of opts e r c w] s1 by simp
  have b: "replayLoop opts es (add_result r r1, c @ c1, w1) =
      (add_result (add_result r r1) r2, (c @ c1) @ c2, w2)"
    using Cons.IH [of "add_result r r1" "c @ c1" w1] s2 by simp
  have c: "replayLoop opts es (r1, c1, w1) = (add_result r1 r2, c1 @ c2, w2)"
    using Cons.IH [of r1 c1 w1] s2 by simp
  show ?case
    using a b c s1 by (simp add: add_result_assoc)
qed

lemma replayLoop_append:
  "replayLoop opts (xs @ ys) s = replayLoop opts ys (replayLoop opts xs s)"
  by (induction xs arbitrary: s) simp_all

lemma replayStep_count:
  "replayStep opts e (empty_ReplayResult, [], w) = (r, c, w') \<Longrightarrow>
     Processed r + Skipped r + int (length (Errors r)) = 1"
  by (auto simp add: replayStep_def empty_ReplayResult_def Let_def
      split: prod.splits option.splits if_splits)

lemma replayLoop_count:
  "replayLoop opts es (empty_ReplayResult, [], w) = (r, c, w') \<Longrightarrow>
     Processed r + Skipped r + int (length (Errors r)) = int (length es)"
proof (induction es arbitrary: r c w w')
  case Nil
  then show ?case by (auto simp add: empty_ReplayResult_def)
next
  case (Cons e es)
  obtain r1 c1 w1 where s1: "replayStep opts e (empty_ReplayResult, [], w) = (r1, c1, w1)"
    by (cases "replayStep opts e (empty_ReplayResult, [], w)") auto
  obtain r2 c2 w2 where s2: "replayLoop opts es (empty_ReplayResult, [], w1) = (r2, c2, w2)"
    by (cases "replayLoop opts es (empty_ReplayResult, [], w1)") auto
  have "replayLoop opts es (r1, c1, w1) = (add_result r1 r2, c1 @ c2, w2)"
    using replayLoop_shift [of opts es r1 c1 w1] s2 by simp
  with Cons.prems s1 have r: "r = add_result r1 r2" by simp
  from replayStep_count [OF s1] Cons.IH [OF s2] show ?case
    by (simp add: r add_result_def)
qed

text \<open>The replay of a ledger is the replay of its later entries followed by the replay of
  its earlier entries.\<close>

lemma ReverseReplay_split:
  "ReverseReplay (l\<lparr>Entries := es1 @ es2\<rparr>) opts w =
     (case ReverseReplay (l\<lparr>Entries := es2\<rparr>) opts w of
        ((r2, x2), c2, w2) \<Rightarrow>
          (case ReverseReplay (l\<lparr>Entries := es1\<rparr>) opts w2 of
             ((r1, x1), c1, w1) \<Rightarrow> ((add_result r2 r1, None), c2 @ c1, w1)))"
proof -
  obtain r2 c2 w2 where s2: "replayLoop opts (rev es2) (empty_ReplayResult, [], w) = (r2, c2, w2)"
    by (cases "replayLoop opts (rev es2) (empty_ReplayResult, [], w)") auto
  obtain r1 c1 w1 where s1: "replayLoop opts (rev es1) (empty_ReplayResult, [], w2) = (r1, c1, w1)"
    by (cases "replayLoop opts (rev es1) (empty_ReplayResult, [], w2)") auto
  have "replayLoop opts (rev es1) (r2, c2, w2) = (add_result r2 r1, c2 @ c1, w1)"
    using replayLoop_shift [of opts "rev es1" r2 c2 w2] s1 by simp
  then show ?thesis
    using s1 s2 by (simp add: ReverseReplay_def replayLoop_append)
qed

lemma ReverseReplay_single:
  "ReverseReplay (l\<lparr>Entries := [e]\<rparr>) opts w =
     (case replayStep opts e (empty_ReplayResult, [], w) of (r, c, w') \<Rightarrow> ((r, None), c, w'))"
  by (simp add: ReverseReplay_def)

lemma ReverseReplay_around:
  assumes "ReverseReplay (l\<lparr>Entries := es2\<rparr>) opts w = ((r2, x2), c2, w2)"
    and "replayStep opts e (empty_ReplayResult, [], w2) = (r, c, w3)"
    and "ReverseReplay (l\<lparr>Entries := es1\<rparr>) opts w3 = ((r1, x1), c1, w1)"
  shows "ReverseReplay (l\<lparr>Entries := es1 @ e # es2\<rparr>) opts w =
     ((add_result (add_result r2 r) r1, None), c2 @ c @ c1, w1)"
proof -
  have a: "ReverseReplay (l\<lparr>Entries := [e] @ es2\<rparr>) opts w = ((add_result r2 r, None), c2 @ c, w3)"
    using assms(1,2)
      ReverseReplay_split [where l = l and ?es1.0 = "[e]" and ?es2.0 = es2 and opts = opts and w = w]
    by (simp add: ReverseReplay_single)
  have "ReverseReplay (l\<lparr>Entries := es1 @ ([e] @ es2)\<rparr>) opts w =
     ((add_result (add_result r2 r) r1, None), (c2 @ c) @ c1, w1)"
    unfolding ReverseReplay_split
      [where l = l and ?es1.0 = es1 and ?es2.0 = "[e] @ es2" and opts = opts and w = w]
    using a assms(3) by simp
  then show ?thesis by simp
qed

lemma replayEntry_unknown:
  "Op e \<notin> set known_ops \<Longrightarrow>
     replayEntry e opts w = ((''unknown'', Some (ErrorString (''unknown operation: '' @ Op e))), w)"
  by (simp add: replayEntry_def known_ops_def)

lemma replayStep_failure:
  assumes "replayEntry e opts w = ((label, Some err), w')"
    and "\<not> errors_Is err errSkipped" and "\<not> errors_Is err errModified"
  shows "replayStep opts e (empty_ReplayResult, [], w) = (error_record e err, call opts e label, w')"
  using assms by (simp add: replayStep_def error_record_def call_def empty_ReplayResult_def)

lemma replayStep_skipped:
  assumes "replayEntry e opts w = ((label, Some errSkipped), w')"
  shows "replayStep opts e (empty_ReplayResult, [], w) = (skip_record, call opts e label, w')"
  using assms by (simp add: replayStep_def skip_record_def call_def empty_ReplayResult_def)

section \<open>Drift\<close>

lemma follow_File [simp]: "lookup r p = Inr (File st c) \<Longrightarrow> follow k r p = Inr p"
  by (cases k) auto

lemma follow_Dir [simp]: "lookup r p = Inr (Dir st es) \<Longrightarrow> follow k r p = Inr p"
  by (cases k) auto

lemma follow_Inl [simp]: "lookup r p = Inl x \<Longrightarrow> follow k r p = Inr p"
  by (cases k) auto

lemma VerifyChecksum_File:
  "os_Lstat w p = Inr (File st c) \<Longrightarrow> VerifyChecksum w p x = (digest w c = x, None)"
  by (auto simp add: VerifyChecksum_def Checksum_file_def os_Open_def os_Read_def os_Lstat_def
      split: sum.splits)

lemma replayEntry_drifted:
  assumes "drifted e w"
  shows "replayEntry e opts w = ((''modified'', Some errModified), w)"
proof -
  consider (create) "Op e = OpFileCreate" | (over) "Op e = OpFileOverwrite" "has_backup e"
    | (link) "Op e = OpSymlinkCreate"
    using assms by (auto simp add: drifted_def split: if_splits)
  then show ?thesis
  proof cases
    case create
    then obtain st c where "Checksum e \<noteq> []" "os_Lstat w (Path e) = Inr (File st c)"
      "digest w c \<noteq> Checksum e"
      using assms by (auto simp add: drifted_def split: sum.splits node.splits)
    then show ?thesis
      using create by (simp add: replayEntry_def replayFileCreate_def VerifyChecksum_File)
  next
    case over
    then obtain st c where "Checksum e \<noteq> []" "os_Lstat w (Path e) = Inr (File st c)"
      "digest w c \<noteq> Checksum e"
      using assms by (auto simp add: drifted_def split: sum.splits node.splits)
    then show ?thesis
      using over by (auto simp add: replayEntry_def replayFileOverwrite_def VerifyChecksum_File
          has_backup_def OpFileCreate_def OpFileOverwrite_def OpFileDelete_def split: option.splits)
  next
    case link
    then obtain st t where "Target e \<noteq> []" "os_Lstat w (Path e) = Inr (Symlink st t)"
      "t \<noteq> Target e"
      using assms by (auto simp add: drifted_def OpFileCreate_def OpFileOverwrite_def
          OpSymlinkCreate_def split: sum.splits node.splits)
    then show ?thesis
      using link by (simp add: replayEntry_def replaySymlinkCreate_def os_Readlink_def
          OpFileCreate_def OpFileOverwrite_def OpFileDelete_def OpSymlinkCreate_def OpDirCreate_def)
  qed
qed

lemma replayStep_drifted:
  assumes "drifted e w"
  shows "replayStep opts e (empty_ReplayResult, [], w) =
     (if Force opts
      then \<lparr>Processed = 1, Skipped = 0, Errors = [], ModifiedFiles = [Path e]\<rparr>
      else drift_record e, call opts e ''modified'', w)"
  using replayEntry_drifted [OF assms, of opts]
  by (simp add: replayStep_def empty_ReplayResult_def drift_record_def call_def)

lemma S4_drifted: "drifted e_rg (mk_world (tree_rg (File file_st ''patched'')))"
  by (simp add: drifted_def os_defs replay_defs scenario_defs)

text \<open>Scenario S4 of the specification, as the code runs it: the forced replay counts the
  drifted file as processed and leaves it, and so cannot remove the directories.\<close>

lemma S4_forced_drift:
  "ReverseReplay (ledger_of [e_a, e_b, e_rg]) (uninstall_options\<lparr>Force := True\<rparr>)
       (mk_world (tree_rg (File file_st ''patched''))) =
     ((\<lparr>Processed = 1, Skipped = 2, Errors = [], ModifiedFiles = [p_rg]\<rparr>, None),
      [(e_rg, ''modified''), (e_b, ''skip (not empty)''), (e_a, ''skip (not empty)'')],
      mk_world (tree_rg (File file_st ''patched'')))"
  by (simp add: os_defs replay_defs scenario_defs)

section \<open>The file tree\<close>

lemma lookup_append:
  "lookup r (p @ q) = (case lookup r p of Inl e \<Rightarrow> Inl e | Inr n \<Rightarrow> lookup n q)"
proof (induction r p rule: lookup.induct)
  case (1 n)
  then show ?case by simp
next
  case (2 st es c cs)
  then show ?case by (simp split: option.splits)
qed simp_all

lemma lookup_snoc_Dir:
  assumes "lookup r (p @ [c]) = Inr n"
  shows "\<exists>st es. lookup r p = Inr (Dir st es) \<and> map_of es c = Some n"
proof (cases "lookup r p")
  case (Inl e)
  with assms show ?thesis by (simp add: lookup_append)
next
  case (Inr m)
  with assms have "lookup m [c] = Inr n" by (simp add: lookup_append)
  then show ?thesis using Inr by (cases m) (auto split: option.splits)
qed

lemma alter_lookup:
  assumes "alter f r p = Inr r'"
  shows "\<exists>res. f (entry_at r p) = Inr res \<and>
           lookup r' p = (case res of None \<Rightarrow> Inl ENOENT | Some n \<Rightarrow> Inr n)"
  using assms
proof (induction f r p arbitrary: r' rule: alter.induct)
  case (1 f n)
  then show ?case by simp
next
  case (2 f st es c)
  then show ?case
    by (auto simp add: entry_at_def update_conv' delete_conv' split: sum.splits option.splits)
next
  case (3 f st es c v va)
  from "3.prems" obtain n0 n1 where n0: "map_of es c = Some n0"
    and n1: "alter f n0 (v # va) = Inr n1" and r': "r' = Dir st (AList.update c n1 es)"
    by (auto split: option.splits sum.splits)
  from "3.IH" [OF n0 n1] obtain res where "f (entry_at n0 (v # va)) = Inr res"
    "lookup n1 (v # va) = (case res of None \<Rightarrow> Inl ENOENT | Some n \<Rightarrow> Inr n)"
    by blast
  then show ?case
    using n0 r' by (auto simp add: entry_at_def update_conv')
qed simp_all


lemma tame_unlink [simp]: "tame unlink"
  by (simp add: tame_def)

lemma tame_put_file [simp]: "tame (put_file new t)"
  by (simp add: tame_def)

lemma tame_put_new_file [simp]: "tame (put_new_file new)"
  by (simp add: tame_def)

lemma tame_put_dir [simp]: "tame (put_dir new)"
  by (simp add: tame_def)

lemma tame_put_link [simp]: "tame (put_link new t)"
  by (simp add: tame_def)

lemma tame_append_file [simp]: "tame (append_file t c)"
  by (simp add: tame_def)

lemma tame_set_perm [simp]: "tame (set_perm m)"
  by (simp add: tame_def)

lemma tame_set_mtime [simp]: "tame (set_mtime t)"
  by (simp add: tame_def)

lemma lookup_below:
  assumes "lookup x (d # ds) = Inr n"
  shows "\<exists>st e es. x = Dir st (e # es)"
proof (cases x)
  case (Dir st es)
  with assms have "map_of es d \<noteq> None" by (auto split: option.splits)
  then have "es \<noteq> []" by auto
  then obtain e es' where "es = e # es'" by (cases es) auto
  with Dir show ?thesis by blast
qed (use assms in simp_all)

lemma tameD:
  assumes "tame f" and "f (Some (Dir st (e # es))) = Inr res"
  shows "\<exists>st'. res = Some (Dir st' (e # es))"
proof -
  from assms(1) have "case f (Some (Dir st (e # es))) of
       Inl x \<Rightarrow> True
     | Inr None \<Rightarrow> False
     | Inr (Some n) \<Rightarrow> (\<exists>st'. n = Dir st' (e # es))"
    unfolding tame_def by blast
  with assms(2) show ?thesis by (cases res) auto
qed

lemma lookup_Dir_stat: "lookup (Dir st es) (d # ds) = lookup (Dir st' es) (d # ds)"
  by simp

lemma alter_frame:
  assumes "tame f" and "alter f r q = Inr r'" and "lookup r p = Inr n" and "\<not> prefix p q"
  shows "lookup r' p = Inr n"
  using assms
proof (induction f r q arbitrary: r' p rule: alter.induct)
  case (1 f n)
  then show ?case by simp
next
  case (2 f st es c)
  from "2.prems"(4) obtain d ps where p: "p = d # ps" by (cases p) auto
  show ?case
  proof (cases "d = c")
    case False
    then show ?thesis
      using "2.prems" p
      by (auto simp add: update_conv' delete_conv' split: sum.splits option.splits)
  next
    case True
    with "2.prems"(4) p obtain d' ps' where ps: "ps = d' # ps'" by (cases ps) auto
    from "2.prems"(3) p True obtain x where x: "map_of es c = Some x" "lookup x ps = Inr n"
      by (auto split: option.splits)
    from lookup_below x(2) ps obtain sx e esx where dx: "x = Dir sx (e # esx)" by blast
    from "2.prems"(2) x(1) dx obtain res where res: "f (Some (Dir sx (e # esx))) = Inr res"
      by (auto split: sum.splits)
    from tameD [OF "2.prems"(1) res] obtain st' where "res = Some (Dir st' (e # esx))" by blast
    with "2.prems"(2) x(1) dx res have "r' = Dir st (AList.update c (Dir st' (e # esx)) es)"
      by simp
    then show ?thesis
      using p True ps x dx by (simp add: update_conv')
  qed
next
  case (3 f st es c v va)
  from "3.prems"(4) obtain d ps where p: "p = d # ps" by (cases p) auto
  from "3.prems"(2) obtain n0 n1 where n0: "map_of es c = Some n0"
    and n1: "alter f n0 (v # va) = Inr n1" and r': "r' = Dir st (AList.update c n1 es)"
    by (auto split: option.splits sum.splits)
  show ?case
  proof (cases "d = c")
    case False
    then show ?thesis
      using "3.prems" p r' by (auto simp add: update_conv' split: option.splits)
  next
    case True
    have "lookup n0 ps = Inr n" using "3.prems"(3) p True n0 by simp
    moreover have "\<not> prefix ps (v # va)" using "3.prems"(4) p True by simp
    ultimately have "lookup n1 ps = Inr n" using "3.IH" [OF n0 "3.prems"(1) n1] by blast
    then show ?thesis using p True r' by (simp add: update_conv')
  qed
qed simp_all

lemma alter_frame_leaf:
  assumes "tame f" and "alter f r q = Inr r'" and "lookup r p = Inr n" and "\<not> IsDir n"
    and "p \<noteq> q"
  shows "lookup r' p = Inr n"
proof (rule alter_frame [OF assms(1-3)])
  show "\<not> prefix p q"
  proof
    assume "prefix p q"
    then obtain zs where q: "q = p @ zs" by (auto simp add: prefix_def)
    with assms(5) obtain z zs' where zs: "zs = z # zs'" by (cases zs) auto
    have "\<And>r r'. lookup r p = Inr n \<Longrightarrow> alter f r (p @ z # zs') = Inr r' \<Longrightarrow> IsDir n"
    proof (induction p)
      case Nil
      then show ?case by (cases r; cases zs') (auto split: option.splits)
    next
      case (Cons a p)
      then show ?case
        by (cases r; cases "p @ z # zs'") (auto split: option.splits sum.splits)
    qed
    with assms(2,3,4) q zs show False by blast
  qed
qed

lemma lookup_ENOENT_nonempty: "lookup r p = Inl e \<Longrightarrow> p \<noteq> []"
  by (cases p) auto

lemma alter_ok:
  assumes "lookup r p = Inr (Dir st es)" and "f (map_of es c) = Inr res"
  shows "\<exists>r'. alter f r (p @ [c]) = Inr r'"
  using assms
proof (induction p arbitrary: r)
  case Nil
  then show ?case by (cases res) auto
next
  case (Cons a p)
  from Cons.prems(1) obtain st0 es0 n0 where r: "r = Dir st0 es0" and n0: "map_of es0 a = Some n0"
    and l: "lookup n0 p = Inr (Dir st es)"
    by (cases r) (auto split: option.splits)
  from Cons.IH [OF l Cons.prems(2)] obtain n1 where n1: "alter f n0 (p @ [c]) = Inr n1" by blast
  obtain v va where pc: "p @ [c] = v # va" by (cases "p @ [c]") auto
  show ?case
    using r n0 n1 pc by simp
qed

lemma entry_at_snoc:
  "lookup r p = Inr (Dir st es) \<Longrightarrow> entry_at r (p @ [c]) = map_of es c"
  by (simp add: entry_at_def lookup_append split: option.splits)

lemma alter_absent:
  assumes "lookup r p = Inl e" and "\<And>x. f None \<noteq> Inr x"
  shows "\<exists>e'. alter f r p = Inl e'"
proof (cases "alter f r p")
  case (Inr r')
  from alter_lookup [OF Inr] assms(1) have "\<exists>res. f None = Inr res"
    by (auto simp add: entry_at_def)
  with assms(2) show ?thesis by blast
qed blast

lemma mkdir_all_noop:
  "lookup r p = Inr (Dir st es) \<Longrightarrow> mkdir_all new r p = Inr r"
proof (induction p arbitrary: r)
  case Nil
  then show ?case by simp
next
  case (Cons a p)
  from Cons.prems obtain st0 es0 n0 where r: "r = Dir st0 es0" and n0: "map_of es0 a = Some n0"
    and l: "lookup n0 p = Inr (Dir st es)"
    by (cases r) (auto split: option.splits)
  from Cons.IH [OF l] show ?case
    using r n0 by (simp add: update_triv)
qed

lemma mkdir_all_absent:
  assumes "lookup r (p @ [c]) = Inl ENOENT"
  shows "\<exists>r' st es. mkdir_all new r p = Inr r' \<and> lookup r' p = Inr (Dir st es) \<and>
           map_of es c = None"
  using assms
proof (induction p arbitrary: r)
  case Nil
  then show ?case by (cases r) (auto split: option.splits)
next
  case (Cons a p)
  from Cons.prems obtain st0 es0 where r: "r = Dir st0 es0"
    by (cases r) auto
  define child where "child = (case map_of es0 a of None \<Rightarrow> Dir new [] | Some n \<Rightarrow> n)"
  have "lookup child (p @ [c]) = Inl ENOENT"
  proof (cases "map_of es0 a")
    case None
    then show ?thesis
      by (cases "p @ [c]") (auto simp add: child_def)
  next
    case (Some n)
    then show ?thesis using Cons.prems r by (simp add: child_def)
  qed
  from Cons.IH [OF this] obtain n1 st es where "mkdir_all new child p = Inr n1"
    "lookup n1 p = Inr (Dir st es)" "map_of es c = None"
    by blast
  then show ?case
    using r by (auto simp add: child_def update_conv')
qed

lemma mkdir_all_frame:
  assumes "mkdir_all new r p = Inr r'" and "lookup r q = Inr n" and "\<not> IsDir n"
  shows "lookup r' q = Inr n"
  using assms
proof (induction p arbitrary: r r' q)
  case Nil
  then show ?case by (cases r) auto
next
  case (Cons a p)
  from Cons.prems(1) obtain st0 es0 where r: "r = Dir st0 es0"
    by (cases r) auto
  define child where "child = (case map_of es0 a of None \<Rightarrow> Dir new [] | Some n \<Rightarrow> n)"
  from Cons.prems(1) r obtain n1 where n1: "mkdir_all new child p = Inr n1"
    and r': "r' = Dir st0 (AList.update a n1 es0)"
    by (auto simp add: child_def split: sum.splits)
  from Cons.prems(2,3) r obtain d qs where q: "q = d # qs" by (cases q) auto
  show ?case
  proof (cases "d = a")
    case False
    then show ?thesis using Cons.prems(2) r r' q by (simp add: update_conv')
  next
    case True
    with Cons.prems(2) r q obtain n0 where "map_of es0 a = Some n0" "lookup n0 qs = Inr n"
      by (auto split: option.splits)
    then have "lookup child qs = Inr n" by (simp add: child_def)
    from Cons.IH [OF n1 this Cons.prems(3)] show ?thesis
      using True r' q by (simp add: update_conv')
  qed
qed

lemma keeps_leavesD:
  "keeps_leaves r r' p \<Longrightarrow> lookup r q = Inr n \<Longrightarrow> \<not> IsDir n \<Longrightarrow> q \<noteq> p \<Longrightarrow> lookup r' q = Inr n"
  by (simp add: keeps_leaves_def)

lemma alter_update:
  assumes "lookup r p = Inr n0" and "p \<noteq> []" and "f (Some n0) = Inr res" and "tame f"
  shows "\<exists>r'. alter f r p = Inr r' \<and>
     lookup r' p = (case res of None \<Rightarrow> Inl ENOENT | Some n \<Rightarrow> Inr n) \<and> keeps_leaves r r' p"
proof -
  from assms(2) obtain D c where p: "p = D @ [c]" by (cases p rule: rev_cases) auto
  from lookup_snoc_Dir assms(1) p obtain st es where d: "lookup r D = Inr (Dir st es)"
    "map_of es c = Some n0" by blast
  from alter_ok [OF d(1), of f c res] d(2) assms(3) p obtain r' where r': "alter f r p = Inr r'"
    by auto
  have "entry_at r p = Some n0" using assms(1) by (simp add: entry_at_def)
  with alter_lookup [OF r'] assms(3)
  have "lookup r' p = (case res of None \<Rightarrow> Inl ENOENT | Some n \<Rightarrow> Inr n)" by simp
  moreover have "keeps_leaves r r' p"
    unfolding keeps_leaves_def using alter_frame_leaf [OF assms(4) r'] by blast
  ultimately show ?thesis using r' by blast
qed

lemma alter_create:
  assumes "lookup r D = Inr (Dir st es)" and "map_of es c = None" and "f None = Inr res"
    and "tame f"
  shows "\<exists>r'. alter f r (D @ [c]) = Inr r' \<and>
     lookup r' (D @ [c]) = (case res of None \<Rightarrow> Inl ENOENT | Some n \<Rightarrow> Inr n) \<and>
     keeps_leaves r r' (D @ [c])"
proof -
  from alter_ok [OF assms(1), of f c res] assms(2,3) obtain r' where
    r': "alter f r (D @ [c]) = Inr r'" by auto
  have "entry_at r (D @ [c]) = None" using entry_at_snoc [OF assms(1)] assms(2) by simp
  with alter_lookup [OF r'] assms(3)
  have "lookup r' (D @ [c]) = (case res of None \<Rightarrow> Inl ENOENT | Some n \<Rightarrow> Inr n)" by simp
  moreover have "keeps_leaves r r' (D @ [c])"
    unfolding keeps_leaves_def using alter_frame_leaf [OF assms(4) r'] by blast
  ultimately show ?thesis using r' by blast
qed

lemma os_Remove_absent:
  "lookup (root w) p = Inl e \<Longrightarrow> snd (os_Remove w p) = w"
  using alter_absent [of "root w" p e unlink]
  by (auto simp add: os_Remove_def on_root_def)

lemma os_Remove_leaf:
  assumes "lookup (root w) p = Inr n" and "\<not> IsDir n" and "p \<noteq> []"
  shows "\<exists>r'. os_Remove w p = (None, w\<lparr>root := r'\<rparr>) \<and> lookup r' p = Inl ENOENT \<and>
     keeps_leaves (root w) r' p"
proof -
  have "unlink (Some n) = Inr None" using assms(2) by (cases n) auto
  from alter_update [where f = unlink, OF assms(1,3) this] show ?thesis
    by (auto simp add: os_Remove_def on_root_def)
qed

lemma os_Open_File: "lookup (root w) p = Inr (File st c) \<Longrightarrow> os_Open w p = Inr p"
  by (simp add: os_Open_def)

lemma os_Read_File: "lookup (root w) p = Inr (File st c) \<Longrightarrow> os_Read w p = Inr c"
  by (simp add: os_Read_def)

lemma os_MkdirAll_absent:
  assumes "lookup (root w) (D @ [c]) = Inl ENOENT"
  shows "\<exists>r' st es. os_MkdirAll w D perm = (None, w\<lparr>root := r'\<rparr>) \<and>
     lookup r' D = Inr (Dir st es) \<and> map_of es c = None \<and>
     (\<forall>q n. lookup (root w) q = Inr n \<longrightarrow> \<not> IsDir n \<longrightarrow> lookup r' q = Inr n)"
proof -
  from mkdir_all_absent [OF assms, of "new_stat w perm"] obtain r' st es where
    m: "mkdir_all (new_stat w perm) (root w) D = Inr r'" "lookup r' D = Inr (Dir st es)"
    "map_of es c = None" by blast
  then show ?thesis
    using mkdir_all_frame [OF m(1)] by (auto simp add: os_MkdirAll_def on_root_def)
qed

lemma os_Create_absent:
  assumes "lookup (root w) D = Inr (Dir st es)" and "map_of es c = None"
  shows "\<exists>r'. os_Create w (D @ [c]) = (Inr (D @ [c]), w\<lparr>root := r'\<rparr>) \<and>
     lookup r' (D @ [c]) = Inr (File (new_stat w 0x1B6) []) \<and>
     keeps_leaves (root w) r' (D @ [c])"
proof -
  have l: "lookup (root w) (D @ [c]) = Inl ENOENT"
    using assms by (simp add: lookup_append)
  from alter_create [OF assms, of "put_file (new_stat w 0x1B6) (now w)"] obtain r' where
    "alter (put_file (new_stat w 0x1B6) (now w)) (root w) (D @ [c]) = Inr r'"
    "lookup r' (D @ [c]) = Inr (File (new_stat w 0x1B6) [])"
    "keeps_leaves (root w) r' (D @ [c])"
    by auto
  then show ?thesis
    using l by (auto simp add: os_Create_def os_OpenFile_trunc_def)
qed

lemma os_Write_File:
  assumes "lookup (root w) p = Inr (File st c0)" and "p \<noteq> []"
  shows "\<exists>r'. os_Write w p c = (None, w\<lparr>root := r'\<rparr>) \<and>
     lookup r' p = Inr (File (st\<lparr>st_mtime := now w\<rparr>) (c0 @ c)) \<and> keeps_leaves (root w) r' p"
proof -
  have "append_file (now w) c (Some (File st c0)) = Inr (Some (File (st\<lparr>st_mtime := now w\<rparr>) (c0 @ c)))"
    by simp
  from alter_update [where f = "append_file (now w) c", OF assms this] show ?thesis
    by (auto simp add: os_Write_def on_root_def)
qed

lemma os_Chmod_File:
  assumes "lookup (root w) p = Inr (File st c)" and "p \<noteq> []"
  shows "\<exists>r'. os_Chmod w p m = (None, w\<lparr>root := r'\<rparr>) \<and>
     lookup r' p = Inr (File (st\<lparr>st_mode := m AND 0x1FF\<rparr>) c) \<and> keeps_leaves (root w) r' p"
proof -
  have "set_perm m (Some (File st c)) = Inr (Some (File (st\<lparr>st_mode := m AND 0x1FF\<rparr>) c))"
    by simp
  from alter_update [where f = "set_perm m", OF assms this] show ?thesis
    using assms(1) by (auto simp add: os_Chmod_def on_root_def)
qed

lemma os_Chtimes_File:
  assumes "lookup (root w) p = Inr (File st c)" and "p \<noteq> []"
  shows "\<exists>r'. os_Chtimes w p t = (None, w\<lparr>root := r'\<rparr>) \<and>
     lookup r' p = Inr (File (st\<lparr>st_mtime := t\<rparr>) c) \<and> keeps_leaves (root w) r' p"
proof -
  have "set_mtime t (Some (File st c)) = Inr (Some (File (st\<lparr>st_mtime := t\<rparr>) c))"
    by simp
  from alter_update [where f = "set_mtime t", OF assms this] show ?thesis
    using assms(1) by (auto simp add: os_Chtimes_def on_root_def)
qed

text \<open>Copying a regular file to a path that is absent.\<close>

lemma copyFile_to_absent:
  assumes "lookup (root w) src = Inr (File sst c)" and "lookup (root w) D = Inr (Dir st es)"
    and "map_of es name = None"
  shows "\<exists>r'. copyFile w src (D @ [name]) = (None, w\<lparr>root := r'\<rparr>) \<and>
     lookup r' (D @ [name]) = Inr (File ((new_stat w 0x1B6)\<lparr>st_mtime := now w\<rparr>) c) \<and>
     keeps_leaves (root w) r' (D @ [name])"
proof -
  let ?dst = "D @ [name]"
  have ne: "src \<noteq> ?dst" using assms by (auto simp add: lookup_append)
  from os_Create_absent [OF assms(2,3)] obtain r1 where
    c: "os_Create w ?dst = (Inr ?dst, w\<lparr>root := r1\<rparr>)"
    and l1: "lookup r1 ?dst = Inr (File (new_stat w 0x1B6) [])"
    and k1: "keeps_leaves (root w) r1 ?dst" by blast
  have s1: "lookup (root (w\<lparr>root := r1\<rparr>)) src = Inr (File sst c)"
    using keeps_leavesD [OF k1 assms(1)] ne by simp
  from os_Write_File [of "w\<lparr>root := r1\<rparr>" ?dst "new_stat w 0x1B6" "[]" c] l1 obtain r2 where
    wr: "os_Write (w\<lparr>root := r1\<rparr>) ?dst c = (None, w\<lparr>root := r2\<rparr>)"
    and l2: "lookup r2 ?dst = Inr (File ((new_stat w 0x1B6)\<lparr>st_mtime := now w\<rparr>) c)"
    and k2: "keeps_leaves r1 r2 ?dst" by auto
  have k: "keeps_leaves (root w) r2 ?dst"
    using k1 k2 unfolding keeps_leaves_def by blast
  have "copyFile w src ?dst = (None, w\<lparr>root := r2\<rparr>)"
    using os_Open_File [OF assms(1)] c os_Read_File [OF s1] wr
    by (simp add: copyFile_def)
  with l2 k show ?thesis by blast
qed

lemma restoreFromBackup_ok:
  assumes absent: "lookup (root w) (Path e) = Inl ENOENT"
    and backup: "lookup (root w) (BackupPath orig) = Inr (File bst c)"
  shows "\<exists>r' st. restoreFromBackup e orig opts w = ((''restored'', None), w\<lparr>root := r'\<rparr>) \<and>
     lookup r' (Path e) = Inr (File st c) \<and> st_mode st = OMode orig AND 0x1FF \<and>
     (ModTime orig \<noteq> 0 \<longrightarrow> st_mtime st = ModTime orig) \<and>
     lookup r' (BackupPath orig) = (if KeepBackups opts then Inr (File bst c) else Inl ENOENT)"
proof -
  let ?P = "Path e" and ?B = "BackupPath orig"
  from absent obtain D name where P: "?P = D @ [name]"
    by (cases ?P rule: rev_cases) auto
  have ne: "?B \<noteq> ?P" using absent backup by auto
  have Bne: "?B \<noteq> []"
  proof
    assume "?B = []"
    with backup have "root w = File bst c" by simp
    with absent P show False by (cases "D @ [name]") auto
  qed
  from os_MkdirAll_absent [of w D name "0x1ED"] absent P obtain r1 st1 es1 where
    m: "os_MkdirAll w D 0x1ED = (None, w\<lparr>root := r1\<rparr>)"
    and d1: "lookup r1 D = Inr (Dir st1 es1)" "map_of es1 name = None"
    and f1: "\<forall>q n. lookup (root w) q = Inr n \<longrightarrow> \<not> IsDir n \<longrightarrow> lookup r1 q = Inr n"
    by auto
  have b1: "lookup r1 ?B = Inr (File bst c)" using f1 backup by simp
  from copyFile_to_absent [of "w\<lparr>root := r1\<rparr>" ?B bst c D st1 es1 name] b1 d1 obtain r2 st2 where
    cp: "copyFile (w\<lparr>root := r1\<rparr>) ?B (D @ [name]) = (None, w\<lparr>root := r2\<rparr>)"
    and l2: "lookup r2 ?P = Inr (File st2 c)" and k2: "keeps_leaves r1 r2 ?P"
    using P by auto
  have b2: "lookup r2 ?B = Inr (File bst c)" using keeps_leavesD [OF k2 b1] ne by simp
  have Pne: "?P \<noteq> []" using P by simp
  from os_Chmod_File [of "w\<lparr>root := r2\<rparr>" ?P st2 c "OMode orig"] l2 Pne obtain r3 where
    ch: "os_Chmod (w\<lparr>root := r2\<rparr>) ?P (OMode orig) = (None, w\<lparr>root := r3\<rparr>)"
    and l3: "lookup r3 ?P = Inr (File (st2\<lparr>st_mode := OMode orig AND 0x1FF\<rparr>) c)"
    and k3: "keeps_leaves r2 r3 ?P" by auto
  have b3: "lookup r3 ?B = Inr (File bst c)" using keeps_leavesD [OF k3 b2] ne by simp
  define w4 where "w4 = (if ModTime orig \<noteq> 0
      then snd (os_Chtimes (w\<lparr>root := r3\<rparr>) ?P (ModTime orig)) else w\<lparr>root := r3\<rparr>)"
  have "\<exists>r4 st4. w4 = w\<lparr>root := r4\<rparr> \<and> lookup r4 ?P = Inr (File st4 c) \<and>
      st_mode st4 = OMode orig AND 0x1FF \<and> (ModTime orig \<noteq> 0 \<longrightarrow> st_mtime st4 = ModTime orig) \<and>
      lookup r4 ?B = Inr (File bst c)"
  proof (cases "ModTime orig = 0")
    case True
    then show ?thesis using l3 b3 by (auto simp add: w4_def)
  next
    case False
    from os_Chtimes_File [of "w\<lparr>root := r3\<rparr>" ?P _ c "ModTime orig"] l3 Pne obtain r4 where
      "os_Chtimes (w\<lparr>root := r3\<rparr>) ?P (ModTime orig) = (None, w\<lparr>root := r4\<rparr>)"
      "lookup r4 ?P = Inr (File (st2\<lparr>st_mode := OMode orig AND 0x1FF, st_mtime := ModTime orig\<rparr>) c)"
      "keeps_leaves r3 r4 ?P" by auto
    then show ?thesis
      using False keeps_leavesD [OF _ b3, of r4 ?P] ne by (auto simp add: w4_def)
  qed
  then obtain r4 st4 where w4: "w4 = w\<lparr>root := r4\<rparr>" and l4: "lookup r4 ?P = Inr (File st4 c)"
    and st4: "st_mode st4 = OMode orig AND 0x1FF" "ModTime orig \<noteq> 0 \<longrightarrow> st_mtime st4 = ModTime orig"
    and b4: "lookup r4 ?B = Inr (File bst c)" by blast
  define w5 where "w5 = (if \<not> KeepBackups opts then snd (os_Remove w4 ?B) else w4)"
  have "\<exists>r5. w5 = w\<lparr>root := r5\<rparr> \<and> lookup r5 ?P = Inr (File st4 c) \<and>
      lookup r5 ?B = (if KeepBackups opts then Inr (File bst c) else Inl ENOENT)"
  proof (cases "KeepBackups opts")
    case True
    then show ?thesis using w4 l4 b4 by (auto simp add: w5_def)
  next
    case False
    from os_Remove_leaf [of w4 ?B "File bst c"] b4 w4 Bne obtain r5 where
      "os_Remove w4 ?B = (None, w\<lparr>root := r5\<rparr>)" "lookup r5 ?B = Inl ENOENT"
      "keeps_leaves r4 r5 ?B" by auto
    then show ?thesis
      using False keeps_leavesD [OF _ l4, of r5 ?B] ne by (auto simp add: w5_def)
  qed
  then obtain r5 where w5: "w5 = w\<lparr>root := r5\<rparr>" and l5: "lookup r5 ?P = Inr (File st4 c)"
    and b5: "lookup r5 ?B = (if KeepBackups opts then Inr (File bst c) else Inl ENOENT)" by blast
  have "restoreFromBackup e orig opts w = ((''restored'', None), w5)"
    using m cp ch P by (simp add: restoreFromBackup_def filepath_Dir_def w5_def w4_def Let_def)
  with w5 l5 b5 st4 show ?thesis by blast
qed

lemma os_Lstat_lookup: "os_Lstat w p = Inr n \<longleftrightarrow> lookup (root w) p = Inr n"
  by (auto simp add: os_Lstat_def split: sum.splits)

lemma os_Lstat_error: "os_Lstat w p = Inl (PathError x) \<longleftrightarrow> lookup (root w) p = Inl x"
  by (auto simp add: os_Lstat_def split: sum.splits)

lemma VerifyChecksum_absent:
  "lookup (root w) p = Inl x \<Longrightarrow> VerifyChecksum w p s = (False, Some (PathError x))"
  by (simp add: VerifyChecksum_def Checksum_file_def os_Open_def)


lemma follow_result:
  "follow k r p = Inr q \<Longrightarrow> \<not> (\<exists>st t. lookup r q = Inr (Symlink st t))"
proof (induction k arbitrary: p)
  case 0
  then show ?case by (auto split: sum.splits node.splits)
next
  case (Suc k)
  then show ?case by (auto split: sum.splits node.splits)
qed

lemma follow_not_link:
  "\<not> (\<exists>st t. lookup r p = Inr (Symlink st t)) \<Longrightarrow> follow k r p = Inr p"
  by (cases k) (auto split: sum.splits node.splits)

lemma follow_after_alter:
  assumes "tame f" and "follow k r p = Inr q" and "alter f r q = Inr r'"
    and "lookup r' q = Inr n'" and "\<not> IsSymlink n'"
  shows "follow k r' p = Inr q"
  using assms(2)
proof (induction k arbitrary: p)
  case 0
  then have "p = q" and "\<not> (\<exists>st t. lookup r p = Inr (Symlink st t))"
    by (auto split: sum.splits node.splits)
  then show ?case using assms(4,5) by (cases n') auto
next
  case (Suc k)
  show ?case
  proof (cases "\<exists>st t. lookup r p = Inr (Symlink st t)")
    case True
    then obtain st t where l: "lookup r p = Inr (Symlink st t)" by blast
    with Suc.prems have f: "follow k r t = Inr q" by simp
    have "p \<noteq> q" using follow_result [OF Suc.prems] l by auto
    from alter_frame_leaf [OF assms(1,3) l _ this] have "lookup r' p = Inr (Symlink st t)" by simp
    with Suc.IH [OF f] show ?thesis by simp
  next
    case False
    with Suc.prems have "p = q" by (auto split: sum.splits node.splits)
    then show ?thesis using assms(4,5) by (cases n') auto
  qed
qed

lemma os_Stat_lookup:
  assumes "os_Stat w p = Inr info"
  shows "\<exists>n. lookup (root w) p = Inr n"
proof (cases "lookup (root w) p")
  case (Inl x)
  then have "follow MAXSYMLINKS (root w) p = Inr p" by simp
  with assms Inl show ?thesis by (simp add: os_Stat_def)
qed blast

lemma os_MkdirAll_existing:
  assumes "lookup (root w) (D @ [c]) = Inr n"
  shows "os_MkdirAll w D perm = (None, w)"
proof -
  from lookup_snoc_Dir [OF assms] obtain st es where "lookup (root w) D = Inr (Dir st es)" by blast
  from mkdir_all_noop [OF this] show ?thesis
    by (simp add: os_MkdirAll_def on_root_def)
qed

lemma createBackup_existing:
  assumes "checksum \<noteq> []"
    and "os_Stat w (filepath_Join (filepath_Join (backupDir r) (pkg r)) checksum) = Inr info"
  shows "createBackup r p checksum w =
     (Inr (filepath_Join (filepath_Join (backupDir r) (pkg r)) checksum), w)"
proof -
  let ?D = "filepath_Join (backupDir r) (pkg r)"
  have b: "filepath_Join ?D checksum = ?D @ [checksum]"
    using assms(1) by (simp add: filepath_Join_def)
  from os_Stat_lookup [OF assms(2)] b obtain n where "lookup (root w) (?D @ [checksum]) = Inr n"
    by auto
  from os_MkdirAll_existing [OF this] assms(2) show ?thesis
    by (simp add: createBackup_def Let_def)
qed

lemma put_file_result:
  "put_file new t x = Inr res \<Longrightarrow> \<exists>st. res = Some (File st [])"
  by (cases "(new, t, x)" rule: put_file.cases) auto

lemma append_file_result:
  "append_file t c x = Inr res \<Longrightarrow> \<exists>st c'. res = Some (File st c')"
  by (cases "(t, c, x)" rule: append_file.cases) auto

lemma createBackup_result:
  assumes "createBackup r p checksum w = (Inr b, w1)"
  shows "b = filepath_Join (filepath_Join (backupDir r) (pkg r)) checksum \<and>
    (\<exists>info. os_Stat w1 b = Inr info)"
proof -
  let ?D = "filepath_Join (backupDir r) (pkg r)"
  let ?b = "filepath_Join ?D checksum"
  from assms obtain w0 where mk: "os_MkdirAll w ?D 0x1ED = (None, w0)"
    by (auto simp add: createBackup_def Let_def split: prod.splits option.splits)
  show ?thesis
  proof (cases "os_Stat w0 ?b")
    case (Inr info)
    with assms mk show ?thesis by (auto simp add: createBackup_def Let_def)
  next
    case (Inl nothing)
    from assms mk Inl obtain src dst w2 c where
      cr: "os_Create w0 ?b = (Inr dst, w2)" and wr: "os_Write w2 dst c = (None, w1)" and b: "b = ?b"
      by (auto simp add: createBackup_def Let_def split: prod.splits option.splits sum.splits)
    from cr obtain r2 where fo: "follow MAXSYMLINKS (root w0) ?b = Inr dst"
      and a2: "alter (put_file (new_stat w0 0x1B6) (now w0)) (root w0) dst = Inr r2"
      and w2: "w2 = w0\<lparr>root := r2\<rparr>"
      by (auto simp add: os_Create_def os_OpenFile_trunc_def split: sum.splits)
    from alter_lookup [OF a2] put_file_result obtain st2 where l2: "lookup r2 dst = Inr (File st2 [])"
      by fastforce
    have f2: "follow MAXSYMLINKS r2 ?b = Inr dst"
      using follow_after_alter [OF _ fo a2 l2] by simp
    from wr w2 obtain r3 where a3: "alter (append_file (now w0) c) r2 dst = Inr r3"
      and w1: "w1 = w0\<lparr>root := r3\<rparr>"
      by (auto simp add: os_Write_def on_root_def split: sum.splits)
    from alter_lookup [OF a3] append_file_result obtain st3 c3 where
      l3: "lookup r3 dst = Inr (File st3 c3)"
      by fastforce
    have "follow MAXSYMLINKS r3 ?b = Inr dst"
      using follow_after_alter [OF _ f2 a3 l3] by simp
    with l3 w1 b show ?thesis by (simp add: os_Stat_def)
  qed
qed


section \<open>Replaying twice\<close>

lemma removal_keeps_ENOENT:
  assumes "\<And>x res. f x = Inr res \<Longrightarrow> res = None" and "alter f r q = Inr r'"
    and "lookup r p = Inl ENOENT"
  shows "lookup r' p = Inl ENOENT"
  using assms(2,3)
proof (induction q arbitrary: r r' p)
  case Nil
  then show ?case by simp
next
  case (Cons c cs)
  from Cons.prems(1) obtain st es where r: "r = Dir st es" by (cases r) auto
  from Cons.prems(2) obtain d ps where p: "p = d # ps" by (cases p) auto
  show ?case
  proof (cases cs)
    case Nil
    with Cons.prems(1) r obtain res where "f (map_of es c) = Inr res"
      and r': "r' = (case res of None \<Rightarrow> Dir st (AList.delete c es)
                     | Some n' \<Rightarrow> Dir st (AList.update c n' es))"
      by (auto split: sum.splits option.splits)
    with assms(1) have "r' = Dir st (AList.delete c es)" by fastforce
    then show ?thesis
      using Cons.prems(2) r p by (cases "d = c") (auto simp add: delete_conv' split: option.splits)
  next
    case (Cons v va)
    with Cons.prems(1) r obtain n0 n1 where n0: "map_of es c = Some n0"
      and n1: "alter f n0 cs = Inr n1" and r': "r' = Dir st (AList.update c n1 es)"
      by (auto split: option.splits sum.splits)
    show ?thesis
    proof (cases "d = c")
      case False
      then show ?thesis using Cons.prems(2) r r' p by (simp add: update_conv')
    next
      case True
      with Cons.prems(2) r p n0 have "lookup n0 ps = Inl ENOENT" by simp
      from Cons.IH [OF n1 this] show ?thesis using True r' p by (simp add: update_conv')
    qed
  qed
qed

lemma unlink_result: "unlink x = Inr res \<Longrightarrow> res = None"
  by (cases x rule: unlink.cases) auto

lemma os_Remove_cases:
  "os_Remove w p = (err, w') \<Longrightarrow>
     (err \<noteq> None \<and> w' = w) \<or> (err = None \<and> (\<exists>r'. alter unlink (root w) p = Inr r' \<and> w' = w\<lparr>root := r'\<rparr>))"
  by (auto simp add: os_Remove_def on_root_def split: sum.splits)

lemma os_Remove_gone:
  assumes "os_Remove w p = (None, w')"
  shows "lookup (root w') p = Inl ENOENT"
proof -
  from os_Remove_cases [OF assms] obtain r' where a: "alter unlink (root w) p = Inr r'"
    and w': "w' = w\<lparr>root := r'\<rparr>" by auto
  from alter_lookup [OF a] unlink_result have "lookup r' p = Inl ENOENT" by fastforce
  with w' show ?thesis by simp
qed

lemma os_Remove_keeps_ENOENT:
  assumes "lookup (root w) p = Inl ENOENT"
  shows "lookup (root (snd (os_Remove w q))) p = Inl ENOENT"
proof (cases "os_Remove w q")
  case (Pair err w')
  from os_Remove_cases [OF Pair] show ?thesis
    using assms Pair removal_keeps_ENOENT [of unlink "root w" q _ p] unlink_result by auto
qed

text \<open>What the replay of a creation entry does to the world: nothing, or the removal of
  its path.\<close>

lemma replayEntry_creation:
  assumes "creation e" and "replayEntry e opts w = ((label, err), w')"
  shows "w' = snd (os_Remove w (Path e)) \<or> w' = w"
  using assms
  by (auto simp add: creation_def replayEntry_def replayFileCreate_def replayDirCreate_def
      replaySymlinkCreate_def replayHardlinkCreate_def OpFileCreate_def OpDirCreate_def
      OpSymlinkCreate_def OpHardlinkCreate_def OpFileDelete_def OpFileOverwrite_def
      split: sum.splits if_splits option.splits prod.splits)

lemma replayEntry_creation_undone:
  assumes "creation e" and "replayEntry e opts w = ((label, err), w')"
    and "label \<in> set undone_labels"
  shows "lookup (root w') (Path e) = Inl ENOENT"
  using assms
  by (auto simp add: creation_def replayEntry_def replayFileCreate_def replayDirCreate_def
      replaySymlinkCreate_def replayHardlinkCreate_def OpFileCreate_def OpDirCreate_def
      OpSymlinkCreate_def OpHardlinkCreate_def OpFileDelete_def OpFileOverwrite_def
      undone_labels_def os_Lstat_def os_Remove_gone
      split: sum.splits if_splits option.splits prod.splits error.splits)

lemma replayEntry_creation_absent:
  assumes "creation e" and "lookup (root w) (Path e) = Inl ENOENT"
  shows "replayEntry e opts w = ((''skip (not found)'', Some errSkipped), w)"
  using assms
  by (auto simp add: creation_def replayEntry_def replayFileCreate_def replayDirCreate_def
      replaySymlinkCreate_def replayHardlinkCreate_def OpFileCreate_def OpDirCreate_def
      OpSymlinkCreate_def OpHardlinkCreate_def OpFileDelete_def OpFileOverwrite_def
      os_Lstat_def)

lemma replayStep_world:
  "snd (snd (replayStep opts e (r, c, w))) = snd (replayEntry e opts w)"
  by (simp add: replayStep_def Let_def split: prod.splits option.splits)

lemma replayLoop_undone:
  assumes "\<forall>e\<in>set xs. creation e" and "set (replay_labels opts xs w) \<subseteq> set undone_labels"
    and "replayLoop opts xs (r0, c0, w) = (r, c, w')"
  shows "(\<forall>e\<in>set xs. lookup (root w') (Path e) = Inl ENOENT) \<and>
    (\<forall>p. lookup (root w) p = Inl ENOENT \<longrightarrow> lookup (root w') p = Inl ENOENT)"
  using assms
proof (induction xs arbitrary: w r0 c0)
  case Nil
  then show ?case by simp
next
  case (Cons e xs)
  obtain label err w1 where re: "replayEntry e opts w = ((label, err), w1)"
    by (cases "replayEntry e opts w") auto
  obtain r1 c1 w1' where st: "replayStep opts e (r0, c0, w) = (r1, c1, w1')"
    by (cases "replayStep opts e (r0, c0, w)") auto
  have "w1' = w1" using replayStep_world [of opts e r0 c0 w] st re by simp
  with st have st': "replayStep opts e (r0, c0, w) = (r1, c1, w1)" by simp
  have cr: "creation e" and crs: "\<forall>e\<in>set xs. creation e" using Cons.prems(1) by simp_all
  have lab: "label \<in> set undone_labels" and labs: "set (replay_labels opts xs w1) \<subseteq> set undone_labels"
    using Cons.prems(2) re by simp_all
  have loop: "replayLoop opts xs (r1, c1, w1) = (r, c, w')" using Cons.prems(3) st' by simp
  note ih = Cons.IH [OF crs labs loop]
  have gone: "lookup (root w1) (Path e) = Inl ENOENT"
    using replayEntry_creation_undone [OF cr re lab] .
  have keep: "\<And>p. lookup (root w) p = Inl ENOENT \<Longrightarrow> lookup (root w1) p = Inl ENOENT"
    using replayEntry_creation [OF cr re] os_Remove_keeps_ENOENT by auto
  show ?case using ih gone keep by auto
qed

lemma replayLoop_skips:
  assumes "\<forall>e\<in>set xs. creation e \<and> lookup (root w) (Path e) = Inl ENOENT"
  shows "replayLoop opts xs (empty_ReplayResult, [], w) =
    (\<lparr>Processed = 0, Skipped = int (length xs), Errors = [], ModifiedFiles = []\<rparr>,
     concat (map (\<lambda>e. call opts e ''skip (not found)'') xs), w)"
  using assms
proof (induction xs)
  case Nil
  then show ?case by (simp add: empty_ReplayResult_def)
next
  case (Cons e xs)
  have "replayEntry e opts w = ((''skip (not found)'', Some errSkipped), w)"
    using replayEntry_creation_absent Cons.prems by simp
  from replayStep_skipped [OF this]
  have st: "replayStep opts e (empty_ReplayResult, [], w) =
      (skip_record, call opts e ''skip (not found)'', w)" .
  have "replayLoop opts xs (skip_record, call opts e ''skip (not found)'', w) =
      (add_result skip_record \<lparr>Processed = 0, Skipped = int (length xs), Errors = [], ModifiedFiles = []\<rparr>,
       call opts e ''skip (not found)'' @ concat (map (\<lambda>e. call opts e ''skip (not found)'') xs), w)"
    using replayLoop_shift [of opts xs skip_record "call opts e ''skip (not found)''" w]
      Cons.IH Cons.prems by simp
  then show ?case using st by (simp add: add_result_def skip_record_def)
qed

lemma second_replay_of_creations:
  assumes "\<forall>e\<in>set es. creation e"
    and "set (replay_labels opts (rev es) w) \<subseteq> set undone_labels"
    and "ReverseReplay (l\<lparr>Entries := es\<rparr>) opts w = ((r1, x1), c1, w1)"
  shows "ReverseReplay (l\<lparr>Entries := es\<rparr>) opts w1 =
      ((\<lparr>Processed = 0, Skipped = int (length es), Errors = [], ModifiedFiles = []\<rparr>, None),
       concat (map (\<lambda>e. call opts e ''skip (not found)'') (rev es)), w1)"
proof -
  from assms(3) obtain r c where
    loop: "replayLoop opts (rev es) (empty_ReplayResult, [], w) = (r, c, w1)"
    by (auto simp add: ReverseReplay_def split: prod.splits)
  have "\<forall>e\<in>set (rev es). creation e" using assms(1) by simp
  from replayLoop_undone [OF this assms(2) loop]
  have "\<forall>e\<in>set (rev es). creation e \<and> lookup (root w1) (Path e) = Inl ENOENT"
    using assms(1) by simp
  from replayLoop_skips [OF this, of opts] show ?thesis
    by (simp add: ReverseReplay_def)
qed

text \<open>A restore that succeeded leaves something at the path.\<close>

lemma mkdir_all_keeps_absent:
  assumes "mkdir_all new r D = Inr r1" and "lookup r (D @ [c]) = Inl x"
  shows "lookup r1 (D @ [c]) = Inl ENOENT"
  using assms
proof (induction D arbitrary: r r1 x)
  case Nil
  then show ?case by (cases r) (auto split: option.splits)
next
  case (Cons a D)
  from Cons.prems(1) obtain st0 es0 where r: "r = Dir st0 es0" by (cases r) auto
  define child where "child = (case map_of es0 a of None \<Rightarrow> Dir new [] | Some n \<Rightarrow> n)"
  from Cons.prems(1) r obtain n1 where n1: "mkdir_all new child D = Inr n1"
    and r1: "r1 = Dir st0 (AList.update a n1 es0)"
    by (auto simp add: child_def split: sum.splits)
  have "\<exists>y. lookup child (D @ [c]) = Inl y"
  proof (cases "map_of es0 a")
    case None
    then show ?thesis by (cases "D @ [c]") (auto simp add: child_def)
  next
    case (Some n)
    then show ?thesis using Cons.prems(2) r by (simp add: child_def)
  qed
  then obtain y where "lookup child (D @ [c]) = Inl y" by blast
  from Cons.IH [OF n1 this] show ?case using r1 by (simp add: update_conv')
qed

lemma os_Chmod_keeps_File:
  assumes "lookup (root w) p = Inr (File st c)" and "p \<noteq> []"
  shows "\<exists>st'. lookup (root (snd (os_Chmod w p m))) p = Inr (File st' c)"
  using os_Chmod_File [OF assms, of m] by auto

lemma os_Chtimes_keeps_File:
  assumes "lookup (root w) p = Inr (File st c)" and "p \<noteq> []"
  shows "\<exists>st'. lookup (root (snd (os_Chtimes w p t))) p = Inr (File st' c)"
  using os_Chtimes_File [OF assms, of t] by auto

lemma os_Remove_keeps_File:
  assumes "lookup (root w) p = Inr (File st c)" and "q \<noteq> p"
  shows "lookup (root (snd (os_Remove w q))) p = Inr (File st c)"
proof (cases "os_Remove w q")
  case (Pair err w')
  from os_Remove_cases [OF Pair] show ?thesis
    using assms Pair alter_frame_leaf [of unlink "root w" q _ p "File st c"] by auto
qed

lemma restoreFromBackup_exists:
  assumes "restoreFromBackup e orig opts w = ((''restored'', None), w')"
    and "lookup (root w) (Path e) = Inl x"
  shows "\<exists>st c. lookup (root w') (Path e) = Inr (File st c)"
proof -
  let ?P = "Path e" and ?B = "BackupPath orig"
  from assms(2) obtain D name where P: "?P = D @ [name]"
    by (cases ?P rule: rev_cases) auto
  from assms(1) obtain w1 w2 where mk: "os_MkdirAll w D 0x1ED = (None, w1)"
    and cp: "copyFile w1 ?B ?P = (None, w2)"
    and w': "w' = (let w3 = snd (os_Chmod w2 ?P (OMode orig));
                    w4 = (if ModTime orig \<noteq> 0 then snd (os_Chtimes w3 ?P (ModTime orig)) else w3)
                in if \<not> KeepBackups opts then snd (os_Remove w4 ?B) else w4)"
    by (auto simp add: restoreFromBackup_def filepath_Dir_def P Let_def
        split: prod.splits option.splits)
  from mk obtain r1 where m: "mkdir_all (new_stat w 0x1ED) (root w) D = Inr r1"
    and w1: "w1 = w\<lparr>root := r1\<rparr>"
    by (auto simp add: os_MkdirAll_def on_root_def split: sum.splits)
  have a1: "lookup (root w1) ?P = Inl ENOENT"
    using mkdir_all_keeps_absent [OF m] assms(2) P w1 by simp
  from cp obtain hin hout w1' c where op: "os_Open w1 ?B = Inr hin"
    and cr: "os_Create w1 ?P = (Inr hout, w1')" and wr: "os_Write w1' hout c = (None, w2)"
    by (auto simp add: copyFile_def split: sum.splits prod.splits)
  have ne: "?B \<noteq> ?P"
  proof
    assume "?B = ?P"
    with op a1 show False by (simp add: os_Open_def)
  qed
  from cr a1 have hout: "hout = ?P" and "\<exists>r. w1' = w1\<lparr>root := r\<rparr>"
    by (auto simp add: os_Create_def os_OpenFile_trunc_def split: sum.splits)
  from wr hout obtain r2 where a: "alter (append_file (now w1') c) (root w1') ?P = Inr r2"
    and w2: "w2 = w1'\<lparr>root := r2\<rparr>"
    by (auto simp add: os_Write_def on_root_def split: sum.splits)
  from alter_lookup [OF a] append_file_result obtain st2 c2 where
    "lookup r2 ?P = Inr (File st2 c2)" by fastforce
  with w2 have l2: "lookup (root w2) ?P = Inr (File st2 c2)" by simp
  have Pne: "?P \<noteq> []" using P by simp
  from os_Chmod_keeps_File [OF l2 Pne, of "OMode orig"] obtain st3 where
    l3: "lookup (root (snd (os_Chmod w2 ?P (OMode orig)))) ?P = Inr (File st3 c2)" by blast
  define w3 where "w3 = snd (os_Chmod w2 ?P (OMode orig))"
  define w4 where "w4 = (if ModTime orig \<noteq> 0 then snd (os_Chtimes w3 ?P (ModTime orig)) else w3)"
  have "\<exists>st4. lookup (root w4) ?P = Inr (File st4 c2)"
    using l3 os_Chtimes_keeps_File [of w3 ?P st3 c2 "ModTime orig"] Pne
    by (auto simp add: w4_def w3_def)
  then obtain st4 where l4: "lookup (root w4) ?P = Inr (File st4 c2)" by blast
  have "w' = (if \<not> KeepBackups opts then snd (os_Remove w4 ?B) else w4)"
    using w' by (simp add: w3_def w4_def Let_def)
  then show ?thesis
    using l4 os_Remove_keeps_File [OF l4 ne] by auto
qed

lemma restored_delete_is_skipped:
  assumes "Op e = OpFileDelete" and "replayEntry e opts w = ((''restored'', None), w')"
  shows "replayEntry e opts w' = ((''skip (exists)'', Some errSkipped), w')"
proof -
  have del: "\<And>w. replayEntry e opts w = replayFileDelete e opts w"
    using assms(1) by (simp add: replayEntry_def OpFileDelete_def OpFileCreate_def)
  from assms(2) del obtain orig x where o: "Original e = Some orig"
    and l: "os_Lstat w (Path e) = Inl x"
    and r: "restoreFromBackup e orig opts w = ((''restored'', None), w')"
    by (auto simp add: replayFileDelete_def split: option.splits sum.splits if_splits)
  from l obtain y where "lookup (root w) (Path e) = Inl y"
    by (auto simp add: os_Lstat_def split: sum.splits)
  from restoreFromBackup_exists [OF r this] obtain st c where
    "lookup (root w') (Path e) = Inr (File st c)" by blast
  then show ?thesis
    using o del by (simp add: replayFileDelete_def os_Lstat_def)
qed

lemma replayStep_calls:
  "OnEntry opts \<Longrightarrow>
     fst (snd (replayStep opts e (r, c, w))) = c @ [(e, fst (fst (replayEntry e opts w)))]"
  by (simp add: replayStep_def Let_def split: prod.splits option.splits)

lemma replay_labels_calls:
  "OnEntry opts \<Longrightarrow>
     fst (snd (replayLoop opts xs (r0, c0, w))) = c0 @ zip xs (replay_labels opts xs w)"
proof (induction xs arbitrary: r0 c0 w)
  case Nil
  then show ?case by simp
next
  case (Cons e xs)
  obtain r1 c1 w1 where st: "replayStep opts e (r0, c0, w) = (r1, c1, w1)"
    by (cases "replayStep opts e (r0, c0, w)") auto
  have c1: "c1 = c0 @ [(e, fst (fst (replayEntry e opts w)))]"
    using replayStep_calls [OF Cons.prems, of e r0 c0 w] st by simp
  have w1: "w1 = snd (replayEntry e opts w)"
    using replayStep_world [of opts e r0 c0 w] st by simp
  show ?case
    using Cons.IH [OF Cons.prems, of r1 c1 w1] st c1 w1
    by (simp split: prod.splits)
qed

section \<open>Writing the ledger file and reading it back\<close>

lemma scan_line_acc:
  "CHR 0x0A \<notin> set d \<Longrightarrow> length acc + length d < MaxScanTokenSize \<Longrightarrow>
     scan acc (d @ CHR 0x0A # rest) =
       (case scan [] rest of (ls, e) \<Rightarrow> (dropCR (rev acc @ d) # ls, e))"
proof (induction d arbitrary: acc)
  case Nil
  then show ?case by simp
next
  case (Cons c d)
  from Cons.prems have "c \<noteq> CHR 0x0A" and "CHR 0x0A \<notin> set d"
    and "length (c # acc) + length d < MaxScanTokenSize" and "\<not> MaxScanTokenSize \<le> length acc + 1"
    by auto
  with Cons.IH [of "c # acc"] show ?case by simp
qed

lemma scan_line:
  "line_ok d \<Longrightarrow> scan [] (text_line d @ rest) = (case scan [] rest of (ls, e) \<Rightarrow> (d # ls, e))"
  using scan_line_acc [of d "[]" rest] by (simp add: line_ok_def text_line_def)


lemma scan_too_long:
  "CHR 0x0A \<notin> set d \<Longrightarrow> MaxScanTokenSize \<le> length acc + length d \<Longrightarrow>
     length acc < MaxScanTokenSize \<Longrightarrow> scan acc (d @ rest) = ([], Some ErrTooLong)"
proof (induction d arbitrary: acc)
  case Nil
  then show ?case by simp
next
  case (Cons c d)
  from Cons.prems have c: "c \<noteq> CHR 0x0A" by auto
  show ?case
  proof (cases "MaxScanTokenSize \<le> length acc + 1")
    case True
    with c show ?thesis by simp
  next
    case False
    with c Cons.prems Cons.IH [of "c # acc"] show ?thesis by simp
  qed
qed




lemma ledger_Path_snoc: "ledger_Path dir pk = dir @ [pk @ ''.jsonl'']"
  by (simp add: ledger_Path_def filepath_Join_def)

lemma os_OpenFile_excl_result:
  assumes "os_OpenFile_excl w p perm = (Inr f, w1)"
  shows "f = p \<and> w1 = w\<lparr>root := root w1\<rparr> \<and> lookup (root w1) p = Inr (File (new_stat w perm) [])"
proof -
  from assms obtain r where a: "alter (put_new_file (new_stat w perm)) (root w) p = Inr r"
    and f: "f = p" and w1: "w1 = w\<lparr>root := r\<rparr>"
    by (auto simp add: os_OpenFile_excl_def split: sum.splits)
  from alter_lookup [OF a] obtain res where
    res: "put_new_file (new_stat w perm) (entry_at (root w) p) = Inr res"
    and l: "lookup r p = (case res of None \<Rightarrow> Inl ENOENT | Some n \<Rightarrow> Inr n)" by blast
  from res have "res = Some (File (new_stat w perm) [])"
    by (cases "(new_stat w perm, entry_at (root w) p)" rule: put_new_file.cases) auto
  with l f w1 show ?thesis by simp
qed

lemma os_MkdirAll_world: "snd (os_MkdirAll w p perm) = w\<lparr>root := root (snd (os_MkdirAll w p perm))\<rparr>"
  by (simp add: os_MkdirAll_def on_root_def split: sum.splits)

lemma write_line_result:
  assumes "lfile l = Some p" and "p \<noteq> []" and "lookup (root w) p = Inr (File st c)"
  shows "\<exists>r st1. write_line l d w = (None, w\<lparr>root := r\<rparr>) \<and>
     lookup r p = Inr (File st1 (c @ text_line d))"
  using os_Write_File [OF assms(3,2), of "d @ [CHR 0x0A]"] assms(1)
  by (auto simp add: write_line_def text_line_def)

lemma Create_result:
  assumes "Create dir pk source w = (Inr l, w0)"
  shows "\<exists>st hl. l = \<lparr>LHeader = \<lparr>Version = CurrentVersion, Package = pk, InstalledAt = now w,
                                   Source = source, SourceChecksum = []\<rparr>,
                        Entries = [], lpath = ledger_Path dir pk, lfile = Some (ledger_Path dir pk)\<rparr> \<and>
     marshal_Header w (LHeader l) = Inr hl \<and> w0 = w\<lparr>root := root w0\<rparr> \<and>
     lookup (root w0) (ledger_Path dir pk) = Inr (File st (text_line hl))"
proof -
  let ?P = "ledger_Path dir pk"
  let ?H = "\<lparr>Version = CurrentVersion, Package = pk, InstalledAt = now w,
             Source = source, SourceChecksum = []\<rparr>"
  have P: "?P \<noteq> []" by (simp add: ledger_Path_snoc)
  obtain x w1 where mk: "os_MkdirAll w dir 0x1ED = (x, w1)" by (cases "os_MkdirAll w dir 0x1ED") auto
  with assms have x: "x = None" by (cases x) (auto simp add: Create_def)
  have w1: "w1 = w\<lparr>root := root w1\<rparr>" using os_MkdirAll_world [of w dir "0x1ED"] mk by simp
  obtain y w2 where op: "os_OpenFile_excl w1 ?P 0x1A4 = (y, w2)"
    by (cases "os_OpenFile_excl w1 ?P 0x1A4") auto
  from assms mk x op obtain f where y: "y = Inr f"
    by (cases y) (auto simp add: Create_def Let_def split: sum.splits)
  from os_OpenFile_excl_result [OF op [unfolded y]]
  have f: "f = ?P" and w2: "w2 = w1\<lparr>root := root w2\<rparr>"
    and l2: "lookup (root w2) ?P = Inr (File (new_stat w1 0x1A4) [])" by simp_all
  have now2: "now w2 = now w" and m2: "marshal_Header w2 = marshal_Header w"
    using w1 w2 by (metis world.select_convs world.surjective world.update_convs(1))+
  let ?l = "\<lparr>LHeader = ?H, Entries = [], lpath = ?P, lfile = Some ?P\<rparr>"
  obtain z w3 where wr: "writeJSON_Header ?l ?H w2 = (z, w3)"
    by (cases "writeJSON_Header ?l ?H w2") auto
  from assms mk x op y f wr now2 have z: "z = None" and l: "l = ?l" and w3: "w0 = w3"
    by (cases z; auto simp add: Create_def Let_def split: sum.splits)+
  from wr z obtain hl where hl: "marshal_Header w ?H = Inr hl" and wl: "write_line ?l hl w2 = (None, w3)"
    using m2 by (auto simp add: writeJSON_Header_def split: sum.splits)
  from write_line_result [of ?l ?P w2 _ "[]" hl, OF _ P l2] wl obtain r st1 where
    "w3 = w2\<lparr>root := r\<rparr>" and "lookup r ?P = Inr (File st1 (text_line hl))" by auto
  with w1 w2 w3 l hl show ?thesis
    by (metis (no_types, lifting) Ledger.select_convs(1) world.select_convs(1) world.surjective world.update_convs(1))
qed

lemma Record_result:
  assumes "lfile l = Some p" and "p \<noteq> []" and "lookup (root w) p = Inr (File st c)"
    and "Record l e w = (None, l1, w1)"
  shows "\<exists>st1 d. marshal_Entry w (stamp (now w) e) = Inr d \<and>
     l1 = l\<lparr>Entries := Entries l @ [stamp (now w) e]\<rparr> \<and> w1 = w\<lparr>root := root w1\<rparr> \<and>
     lookup (root w1) p = Inr (File st1 (c @ text_line d))"
proof -
  let ?e = "stamp (now w) e"
  obtain z w2 where wr: "writeJSON_Entry l ?e w = (z, w2)" by (cases "writeJSON_Entry l ?e w") auto
  from assms(1,4) wr have z: "z = None" and l1: "l1 = l\<lparr>Entries := Entries l @ [?e]\<rparr>"
    and w1: "w1 = w2"
    by (cases z; auto simp add: Record_def stamp_def Let_def)+
  from wr z obtain d where d: "marshal_Entry w ?e = Inr d" and wl: "write_line l d w = (None, w2)"
    by (auto simp add: writeJSON_Entry_def split: sum.splits)
  from write_line_result [OF assms(1-3), of d] wl obtain r st1 where
    "w2 = w\<lparr>root := r\<rparr>" and "lookup r p = Inr (File st1 (c @ text_line d))" by auto
  with d l1 w1 show ?thesis by auto
qed




section \<open>The installer and its ledger\<close>

lemma recorded_more_refl [simp]: "recorded_more r r"
  by (simp add: recorded_more_def)

lemma recorded_more_trans: "recorded_more r r1 \<Longrightarrow> recorded_more r1 r2 \<Longrightarrow> recorded_more r r2"
  by (auto simp add: recorded_more_def)

lemma record_entry_more: "record_entry r e w = (x, r', w') \<Longrightarrow> recorded_more r r'"
  by (auto simp add: record_entry_def Record_def recorded_more_def Let_def
      split: if_splits prod.splits option.splits)

lemma RecordFileCreate_more: "RecordFileCreate r p w = (x, r', w') \<Longrightarrow> recorded_more r r'"
  by (auto simp add: RecordFileCreate_def dest: record_entry_more split: sum.splits)

lemma RecordFileOverwriteWithBackup_more:
  "RecordFileOverwriteWithBackup r p orig c s m w = (x, r', w') \<Longrightarrow> recorded_more r r'"
  by (auto simp add: RecordFileOverwriteWithBackup_def dest: record_entry_more split: sum.splits)

lemma RecordDirCreate_more: "RecordDirCreate r p w = (x, r', w') \<Longrightarrow> recorded_more r r'"
  by (auto simp add: RecordDirCreate_def dest: record_entry_more split: sum.splits)

lemma RecordSymlinkCreate_more: "RecordSymlinkCreate r p t w = (x, r', w') \<Longrightarrow> recorded_more r r'"
  by (auto simp add: RecordSymlinkCreate_def dest: record_entry_more split: sum.splits)

lemma record_dirs_more: "record_dirs r ds w = (x, r', w') \<Longrightarrow> recorded_more r r'"
proof (induction ds arbitrary: r w)
  case Nil
  then show ?case by simp
next
  case (Cons d ds)
  obtain y r1 w1 where rd: "RecordDirCreate r d w = (y, r1, w1)"
    by (cases "RecordDirCreate r d w") auto
  note first = RecordDirCreate_more [OF rd]
  show ?case
  proof (cases y)
    case None
    with Cons.prems rd have "record_dirs r1 ds w1 = (x, r', w')" by simp
    from recorded_more_trans [OF first Cons.IH [OF this]] show ?thesis .
  next
    case (Some err)
    with Cons.prems rd first show ?thesis by simp
  qed
qed

lemma executeCopy_more: "executeCopy step srcDir r w = (x, r', w') \<Longrightarrow> recorded_more r r'"
  by (auto simp add: executeCopy_def Let_def
      dest: RecordFileCreate_more RecordFileOverwriteWithBackup_more
      split: sum.splits prod.splits option.splits if_splits)

lemma executeMkdir_more: "executeMkdir step r w = (x, r', w') \<Longrightarrow> recorded_more r r'"
  by (auto simp add: executeMkdir_def Let_def dest: record_dirs_more
      split: sum.splits prod.splits option.splits if_splits)

lemma executeSymlink_more: "executeSymlink step r w = (x, r', w') \<Longrightarrow> recorded_more r r'"
  by (auto simp add: executeSymlink_def Let_def dest: RecordSymlinkCreate_more
      split: sum.splits prod.splits option.splits if_splits bool.splits)

lemma executeStep_more: "executeStep step srcDir r w = (x, r', w') \<Longrightarrow> recorded_more r r'"
  by (auto simp add: executeStep_def
      dest: executeCopy_more executeMkdir_more executeSymlink_more
      split: if_splits prod.splits)

lemma install_steps_more:
  "install_steps i srcDir idx steps r w = (None, r', w') \<Longrightarrow> recorded_more r r'"
proof (induction steps arbitrary: idx r w)
  case Nil
  then show ?case by simp
next
  case (Cons s steps)
  obtain y r1 w1 where ex: "executeStep s srcDir r w = (y, r1, w1)"
    by (cases "executeStep s srcDir r w") auto
  with Cons.prems have y: "y = None"
    by (cases y) (auto simp add: Let_def split: prod.splits)
  with Cons.prems ex have "install_steps i srcDir (idx + 1) steps r1 w1 = (None, r', w')" by simp
  from recorded_more_trans [OF executeStep_more [OF ex] Cons.IH [OF this]] show ?case .
qed

lemma install_steps_append:
  "install_steps i srcDir idx pre r w = (None, r1, w1) \<Longrightarrow>
     install_steps i srcDir idx (pre @ rest) r w =
       install_steps i srcDir (idx + length pre) rest r1 w1"
proof (induction pre arbitrary: idx r w)
  case Nil
  then show ?case by simp
next
  case (Cons s pre)
  obtain y r0 w0 where ex: "executeStep s srcDir r w = (y, r0, w0)"
    by (cases "executeStep s srcDir r w") auto
  with Cons.prems have y: "y = None"
    by (cases y) (auto simp add: Let_def split: prod.splits)
  with Cons.prems ex have "install_steps i srcDir (idx + 1) pre r0 w0 = (None, r1, w1)" by simp
  from Cons.IH [OF this] ex y show ?case by simp
qed

lemma install_steps_failure:
  assumes "executeStep step srcDir r w = (Some err, r', w')"
  shows "install_steps i srcDir idx (step # post) r w =
     (Some (step_error (idx + 1) step err), r'\<lparr>ledger := (ledger r')\<lparr>lfile := None\<rparr>\<rparr>,
      rolled_back r' w')"
  using assms
  by (simp add: Let_def Delete_def rollback_def rolled_back_def step_error_def split: prod.splits)

lemma errors_Is_refl [simp]: "errors_Is e e"
  by (cases e) simp_all

lemma os_Remove_no_leaf:
  assumes "p \<noteq> []" and "lookup (root (snd (os_Remove w p))) p = Inr n"
  shows "IsDir n"
proof (cases "alter unlink (root w) p")
  case (Inl e)
  then have same: "snd (os_Remove w p) = w" by (simp add: os_Remove_def on_root_def)
  show ?thesis
  proof (rule ccontr)
    assume "\<not> IsDir n"
    from os_Remove_leaf [OF assms(2) [unfolded same] this assms(1)] Inl show False
      by (auto simp add: os_Remove_def on_root_def)
  qed
next
  case (Inr r')
  from alter_lookup [OF Inr] obtain res where
    res: "unlink (entry_at (root w) p) = Inr res"
    and l: "lookup r' p = (case res of None \<Rightarrow> Inl ENOENT | Some n \<Rightarrow> Inr n)" by blast
  from res have "res = None" by (cases "entry_at (root w) p" rule: unlink.cases) auto
  with l Inr assms(2) show ?thesis by (simp add: os_Remove_def on_root_def)
qed


section \<open>The backup store under the recorder\<close>

lemma lookup_prefix_Dir:
  assumes "lookup r (p @ c # cs) = Inr n"
  shows "\<exists>st es. lookup r p = Inr (Dir st es)"
proof (cases "lookup r p")
  case (Inl e)
  with assms show ?thesis by (simp add: lookup_append)
next
  case (Inr m)
  with assms have "lookup m (c # cs) = Inr n" by (simp add: lookup_append)
  then show ?thesis using Inr by (cases m) auto
qed

lemma append_keeps_lookup:
  assumes "alter (append_file t c) r h = Inr r'" and "lookup r q = Inr n"
  shows "\<exists>n'. lookup r' q = Inr n' \<and> (IsSymlink n \<longrightarrow> n' = n) \<and> (\<not> IsSymlink n \<longrightarrow> \<not> IsSymlink n')"
proof -
  from alter_lookup [OF assms(1)] obtain res where
    res: "append_file t c (entry_at r h) = Inr res"
    and l': "lookup r' h = (case res of None \<Rightarrow> Inl ENOENT | Some n \<Rightarrow> Inr n)" by blast
  from res obtain st c0 where e: "entry_at r h = Some (File st c0)"
    and r: "res = Some (File (st\<lparr>st_mtime := t\<rparr>) (c0 @ c))"
    by (cases "(t, c, entry_at r h)" rule: append_file.cases) auto
  from e have lh: "lookup r h = Inr (File st c0)"
    by (auto simp add: entry_at_def split: sum.splits)
  from l' r have lh': "lookup r' h = Inr (File (st\<lparr>st_mtime := t\<rparr>) (c0 @ c))" by simp
  show ?thesis
  proof (cases "q = h")
    case True
    with lh lh' assms(2) show ?thesis by auto
  next
    case False
    show ?thesis
    proof (cases "prefix q h")
      case True
      with False obtain z zs where h: "h = q @ z # zs"
        by (auto simp add: prefix_def) (metis list.exhaust append_Nil2)
      from lookup_prefix_Dir [OF lh [unfolded h]] assms(2) obtain st1 es1 where
        n: "n = Dir st1 es1" by auto
      from lookup_prefix_Dir [OF lh' [unfolded h]] obtain st2 es2 where
        "lookup r' q = Inr (Dir st2 es2)" by auto
      with n show ?thesis by auto
    next
      case np: False
      from alter_frame [OF _ assms(1,2) np] have "lookup r' q = Inr n" by simp
      then show ?thesis by auto
    qed
  qed
qed

lemma append_keeps_follow:
  assumes "alter (append_file t c) r h = Inr r'"
  shows "follow k r p = Inr q \<Longrightarrow> lookup r q = Inr n \<Longrightarrow>
     \<exists>n'. follow k r' p = Inr q \<and> lookup r' q = Inr n'"
proof (induction k arbitrary: p)
  case 0
  then have pq: "p = q" and ns: "\<not> IsSymlink n"
    by (auto split: sum.splits node.splits)
  from append_keeps_lookup [OF assms "0.prems"(2)] ns obtain n' where
    "lookup r' q = Inr n'" "\<not> IsSymlink n'" by auto
  with pq show ?case by (cases n') auto
next
  case (Suc k)
  show ?case
  proof (cases "\<exists>st tg. lookup r p = Inr (Symlink st tg)")
    case True
    then obtain st tg where l: "lookup r p = Inr (Symlink st tg)" by blast
    with Suc.prems have f: "follow k r tg = Inr q" by simp
    from append_keeps_lookup [OF assms l] have "lookup r' p = Inr (Symlink st tg)" by auto
    with Suc.IH [OF f Suc.prems(2)] show ?thesis by simp
  next
    case False
    with Suc.prems have pq: "p = q" by (auto split: sum.splits node.splits)
    with False Suc.prems(2) have ns: "\<not> IsSymlink n" by (cases n) auto
    from append_keeps_lookup [OF assms Suc.prems(2)] ns obtain n' where
      "lookup r' q = Inr n'" "\<not> IsSymlink n'" by auto
    with pq show ?thesis by (cases n') auto
  qed
qed

lemma os_Write_keeps_Stat:
  assumes "os_Write w h c = (None, w1)" and "os_Stat w p = Inr info"
  shows "\<exists>info'. os_Stat w1 p = Inr info'"
proof -
  from assms(1) obtain r' where a: "alter (append_file (now w) c) (root w) h = Inr r'"
    and w1: "w1 = w\<lparr>root := r'\<rparr>"
    by (auto simp add: os_Write_def on_root_def split: sum.splits)
  from assms(2) obtain q where f: "follow MAXSYMLINKS (root w) p = Inr q"
    and l: "lookup (root w) q = Inr info"
    by (auto simp add: os_Stat_def split: sum.splits)
  from append_keeps_follow [OF a f l] w1 show ?thesis by (auto simp add: os_Stat_def)
qed

lemma record_entry_world:
  assumes "record_entry r e w = (None, r1, w1)"
  shows "\<exists>h line. lfile (ledger r) = Some h \<and> os_Write w h line = (None, w1) \<and>
     r1 = r\<lparr>ledger := (ledger r)\<lparr>Entries := Entries (ledger r) @ [stamp (now w) e]\<rparr>\<rparr>"
  using assms
  by (auto simp add: record_entry_def Record_def writeJSON_Entry_def write_line_def Let_def stamp_def
      split: if_splits prod.splits option.splits sum.splits)

lemma stamp_keeps [simp]: "Original (stamp t e) = Original e" "Op (stamp t e) = Op e"
  "Path (stamp t e) = Path e"
  by (simp_all add: stamp_def)

lemma PrepareOverwrite_backup:
  assumes "PrepareOverwrite r p w = (Inr (Some orig), w1)" and "OChecksum orig \<noteq> []"
  shows "createBackup r p (OChecksum orig) w = (Inr (BackupPath orig), w1)"
  using assms
  by (auto simp add: PrepareOverwrite_def zero_OriginalFile_def
      split: sum.splits if_splits prod.splits)

lemma RecordFileDelete_backup:
  assumes "RecordFileDelete r p w = (None, r1, w1)"
    and "Original (last (Entries (ledger r1))) = Some orig" and "OChecksum orig \<noteq> []"
  shows "\<exists>w' h line. createBackup r p (OChecksum orig) w = (Inr (BackupPath orig), w') \<and>
     lfile (ledger r) = Some h \<and> os_Write w' h line = (None, w1)"
proof -
  from assms(1) obtain info where li: "os_Lstat w p = Inr info"
    by (auto simp add: RecordFileDelete_def split: sum.splits)
  show ?thesis
  proof (cases "IsSymlink info")
    case True
    with assms(1) li obtain e where rec: "record_entry r e w = (None, r1, w1)"
      and o: "\<exists>x. Original e = Some x \<and> OChecksum x = []"
      by (auto simp add: RecordFileDelete_def zero_OriginalFile_def split: sum.splits)
    from record_entry_world [OF rec] assms(2) o assms(3) show ?thesis by auto
  next
    case False
    with assms(1) li obtain checksum b w' e where
      cb: "createBackup r p checksum w = (Inr b, w')"
      and rec: "record_entry r e w' = (None, r1, w1)"
      and o: "\<exists>x. Original e = Some x \<and> OChecksum x = checksum \<and> BackupPath x = b"
      by (auto simp add: RecordFileDelete_def split: sum.splits prod.splits)
    from record_entry_world [OF rec] assms(2) o cb show ?thesis by auto
  qed
qed



section \<open>Claims about the reverse replay\<close>

text \<open>
  Claim C1 says that a forced replay still performs the undo of an entry whose state has
  drifted. The code does not: for every drifted entry \<open>replayEntry\<close> returns
  \<open>errModified\<close> before it touches the file system, and with \<open>Force\<close> the loop only counts
  the entry as processed. The world after the replay of such an entry is the world before
  it; the path is in \<open>ModifiedFiles\<close> and there is no \<open>ReplayError\<close>.
\<close>

theorem forced_replay_skips_the_undo:
  assumes "drifted e w" and "Force opts"
  shows "replayEntry e opts w = ((''modified'', Some errModified), w) \<and>
    ReverseReplay (l\<lparr>Entries := [e]\<rparr>) opts w =
      ((\<lparr>Processed = 1, Skipped = 0, Errors = [], ModifiedFiles = [Path e]\<rparr>, None),
       call opts e ''modified'', w)"
  using replayEntry_drifted [OF assms(1), of opts] replayStep_drifted [OF assms(1), of opts] assms(2)
  by (simp add: ReverseReplay_single)

theorem forced_replay_skips_the_undo_witness:
  "drifted e_rg (mk_world (tree_rg (File file_st ''patched''))) \<and>
   Force (uninstall_options\<lparr>Force := True\<rparr>) \<and>
   ReverseReplay (ledger_of [e_rg]) (uninstall_options\<lparr>Force := True\<rparr>)
       (mk_world (tree_rg (File file_st ''patched''))) =
      ((\<lparr>Processed = 1, Skipped = 0, Errors = [], ModifiedFiles = [p_rg]\<rparr>, None),
       [(e_rg, ''modified'')], mk_world (tree_rg (File file_st ''patched'')))"
proof -
  have f: "Force (uninstall_options\<lparr>Force := True\<rparr>)" by simp
  from forced_replay_skips_the_undo [OF S4_drifted f, of "ledger_of []"] S4_drifted f
  show ?thesis
    by (simp add: call_def)
qed

text \<open>
  Claim C3, amended. When the loop, without \<open>Force\<close>, reaches an entry that has drifted (a
  \<open>file_create\<close> or \<open>file_overwrite\<close> entry with a checksum whose file holds other content,
  or a \<open>symlink_create\<close> entry whose link points elsewhere), the entry leaves the world as
  it is, its path is added to \<open>ModifiedFiles\<close> and the entry to \<open>Errors\<close>, and the
  entries before it in the ledger are replayed from that same world as they would be on
  their own. Here \<open>es2\<close> are the entries recorded after \<open>e\<close> (replayed first, from \<open>w\<close> to
  \<open>w2\<close>) and \<open>es1\<close> the entries recorded before it.
\<close>

theorem drift_without_force:
  assumes "drifted e w2" and "\<not> Force opts"
    and "ReverseReplay (l\<lparr>Entries := es2\<rparr>) opts w = ((r2, x2), c2, w2)"
    and "ReverseReplay (l\<lparr>Entries := es1\<rparr>) opts w2 = ((r1, x1), c1, w1)"
  shows "replayEntry e opts w2 = ((''modified'', Some errModified), w2) \<and>
    ReverseReplay (l\<lparr>Entries := es1 @ e # es2\<rparr>) opts w =
      ((add_result (add_result r2 (drift_record e)) r1, None),
       c2 @ call opts e ''modified'' @ c1, w1)"
proof -
  have step: "replayStep opts e (empty_ReplayResult, [], w2) =
      (drift_record e, call opts e ''modified'', w2)"
    using replayStep_drifted [OF assms(1), of opts] assms(2) by simp
  show ?thesis
    using replayEntry_drifted [OF assms(1), of opts] ReverseReplay_around [OF assms(3) step assms(4)]
    by simp
qed

theorem drift_without_force_witness:
  "drifted e_rg (mk_world (tree_rg (File file_st ''patched''))) \<and>
   \<not> Force uninstall_options \<and>
   ReverseReplay (ledger_of [e_a, e_b, e_rg]) uninstall_options
       (mk_world (tree_rg (File file_st ''patched''))) =
     ((\<lparr>Processed = 0, Skipped = 2, Errors = [\<lparr>REntry = e_rg, Err = errModified\<rparr>],
        ModifiedFiles = [p_rg]\<rparr>, None),
      [(e_rg, ''modified''), (e_b, ''skip (not empty)''), (e_a, ''skip (not empty)'')],
      mk_world (tree_rg (File file_st ''patched'')))"
proof -
  let ?w = "mk_world (tree_rg (File file_st ''patched''))"
  have f: "\<not> Force uninstall_options" by simp
  have reach: "ReverseReplay ((ledger_of [])\<lparr>Entries := []\<rparr>) uninstall_options ?w =
      ((empty_ReplayResult, None), [], ?w)"
    by (simp add: ReverseReplay_def ledger_of_def)
  have rest: "ReverseReplay ((ledger_of [])\<lparr>Entries := [e_a, e_b]\<rparr>) uninstall_options ?w =
      ((\<lparr>Processed = 0, Skipped = 2, Errors = [], ModifiedFiles = []\<rparr>, None),
       [(e_b, ''skip (not empty)''), (e_a, ''skip (not empty)'')], ?w)"
    by (simp add: os_defs replay_defs scenario_defs)
  from drift_without_force [OF S4_drifted f reach rest] S4_drifted f
  show ?thesis
    by (simp add: call_def add_result_def drift_record_def empty_ReplayResult_def)
qed

text \<open>
  Claim C3 as it is written fails for a \<open>hardlink_create\<close> entry, which carries a checksum
  that the replay never verifies: the file with other content is removed, and neither
  \<open>ModifiedFiles\<close> nor \<open>Errors\<close> mentions it.
\<close>

theorem hardlink_checksum_not_verified:
  "Checksum e_hardlink \<noteq> [] \<and>
   Checksum_file (mk_world (tree_rg (File file_st ''patched''))) (Path e_hardlink) =
     Inr ''sha256:patched'' \<and>
   ''sha256:patched'' \<noteq> Checksum e_hardlink \<and>
   ReverseReplay (ledger_of [e_hardlink]) uninstall_options
       (mk_world (tree_rg (File file_st ''patched''))) =
     ((\<lparr>Processed = 1, Skipped = 0, Errors = [], ModifiedFiles = []\<rparr>, None),
      [(e_hardlink, ''removed'')], mk_world tree_b)"
  by (simp add: os_defs replay_defs scenario_defs)

text \<open>
  Claim C4. \<open>ReverseReplay\<close> returns a result and no top-level error, whatever the ledger and
  the options; every entry is counted once, as processed, skipped or failed; an entry whose
  undo fails (neither skipped nor refused for drift) is appended to \<open>Errors\<close> and the loop
  goes on with the entries before it; an unknown operation is such a failure and changes
  nothing.
\<close>

theorem ReverseReplay_accumulates_errors:
  "snd (fst (ReverseReplay l opts w)) = None \<and>
   Processed (fst (fst (ReverseReplay l opts w))) + Skipped (fst (fst (ReverseReplay l opts w)))
     + int (length (Errors (fst (fst (ReverseReplay l opts w))))) = int (length (Entries l)) \<and>
   (\<forall>es1 e es2 r2 x2 c2 w2 label err w3 r1 x1 c1 w1.
      Entries l = es1 @ e # es2 \<longrightarrow>
      ReverseReplay (l\<lparr>Entries := es2\<rparr>) opts w = ((r2, x2), c2, w2) \<longrightarrow>
      replayEntry e opts w2 = ((label, Some err), w3) \<longrightarrow>
      \<not> errors_Is err errSkipped \<longrightarrow> \<not> errors_Is err errModified \<longrightarrow>
      ReverseReplay (l\<lparr>Entries := es1\<rparr>) opts w3 = ((r1, x1), c1, w1) \<longrightarrow>
      ReverseReplay l opts w =
        ((add_result (add_result r2 (error_record e err)) r1, None),
         c2 @ call opts e label @ c1, w1)) \<and>
   (\<forall>e w2. Op e \<notin> set known_ops \<longrightarrow>
      replayEntry e opts w2 =
        ((''unknown'', Some (ErrorString (''unknown operation: '' @ Op e))), w2) \<and>
      \<not> errors_Is (ErrorString (''unknown operation: '' @ Op e)) errSkipped \<and>
      \<not> errors_Is (ErrorString (''unknown operation: '' @ Op e)) errModified)"
proof (intro conjI allI impI)
  show "snd (fst (ReverseReplay l opts w)) = None"
    by (simp add: ReverseReplay_def split: prod.splits)
next
  obtain r c w' where s: "replayLoop opts (rev (Entries l)) (empty_ReplayResult, [], w) = (r, c, w')"
    by (cases "replayLoop opts (rev (Entries l)) (empty_ReplayResult, [], w)") auto
  from replayLoop_count [OF s] s
  show "Processed (fst (fst (ReverseReplay l opts w))) + Skipped (fst (fst (ReverseReplay l opts w)))
     + int (length (Errors (fst (fst (ReverseReplay l opts w))))) = int (length (Entries l))"
    by (simp add: ReverseReplay_def)
next
  fix es1 es2 :: "Entry list" and e :: Entry and r2 r1 :: ReplayResult
    and x2 x1 :: "error option" and c2 c1 :: "(Entry \<times> string) list" and w2 w3 w1 :: world
    and label :: string and err :: error
  assume split: "Entries l = es1 @ e # es2"
    and reach: "ReverseReplay (l\<lparr>Entries := es2\<rparr>) opts w = ((r2, x2), c2, w2)"
    and fails: "replayEntry e opts w2 = ((label, Some err), w3)"
      "\<not> errors_Is err errSkipped" "\<not> errors_Is err errModified"
    and rest: "ReverseReplay (l\<lparr>Entries := es1\<rparr>) opts w3 = ((r1, x1), c1, w1)"
  have step: "replayStep opts e (empty_ReplayResult, [], w2) =
      (error_record e err, call opts e label, w3)"
    using replayStep_failure [OF fails] .
  have "l = l\<lparr>Entries := es1 @ e # es2\<rparr>"
    using split by simp
  then show "ReverseReplay l opts w =
        ((add_result (add_result r2 (error_record e err)) r1, None),
         c2 @ call opts e label @ c1, w1)"
    using ReverseReplay_around [OF reach step rest] by metis
next
  fix e :: Entry and w2 :: world
  assume "Op e \<notin> set known_ops"
  then show "replayEntry e opts w2 =
      ((''unknown'', Some (ErrorString (''unknown operation: '' @ Op e))), w2)"
    by (rule replayEntry_unknown)
qed simp_all

theorem ReverseReplay_accumulates_errors_witness:
  "Entries (ledger_of [e_a, e_b, e_bogus, e_rg]) = [e_a, e_b] @ e_bogus # [e_rg] \<and>
   Op e_bogus \<notin> set known_ops \<and>
   ReverseReplay (ledger_of [e_a, e_b, e_bogus, e_rg]) uninstall_options
       (mk_world (tree_rg (File file_st ''binary''))) =
     ((\<lparr>Processed = 3, Skipped = 0,
        Errors = [\<lparr>REntry = e_bogus, Err = ErrorString ''unknown operation: file_rename''\<rparr>],
        ModifiedFiles = []\<rparr>, None),
      [(e_rg, ''deleted''), (e_bogus, ''unknown''), (e_b, ''removed''), (e_a, ''removed'')],
      mk_world tree_t)"
proof -
  let ?l = "ledger_of [e_a, e_b, e_bogus, e_rg]"
  let ?w = "mk_world (tree_rg (File file_st ''binary''))"
  have split: "Entries ?l = [e_a, e_b] @ e_bogus # [e_rg]" by simp
  have op: "Op e_bogus \<notin> set known_ops"
    by (simp add: known_ops_def e_bogus_def zero_Entry_def replay_defs)
  have reach: "ReverseReplay (?l\<lparr>Entries := [e_rg]\<rparr>) uninstall_options ?w =
      ((\<lparr>Processed = 1, Skipped = 0, Errors = [], ModifiedFiles = []\<rparr>, None),
       [(e_rg, ''deleted'')], mk_world tree_b)"
    by (simp add: os_defs replay_defs scenario_defs)
  have rest: "ReverseReplay (?l\<lparr>Entries := [e_a, e_b]\<rparr>) uninstall_options (mk_world tree_b) =
      ((\<lparr>Processed = 2, Skipped = 0, Errors = [], ModifiedFiles = []\<rparr>, None),
       [(e_b, ''removed''), (e_a, ''removed'')], mk_world tree_t)"
    by (simp add: os_defs replay_defs scenario_defs)
  note inst = ReverseReplay_accumulates_errors [of ?l uninstall_options ?w]
  note fails = inst [THEN conjunct2, THEN conjunct2, THEN conjunct1, rule_format]
  note unknown = inst [THEN conjunct2, THEN conjunct2, THEN conjunct2, rule_format, OF op]
  have "ReverseReplay ?l uninstall_options ?w =
      ((add_result (add_result \<lparr>Processed = 1, Skipped = 0, Errors = [], ModifiedFiles = []\<rparr>
          (error_record e_bogus (ErrorString (''unknown operation: '' @ Op e_bogus))))
          \<lparr>Processed = 2, Skipped = 0, Errors = [], ModifiedFiles = []\<rparr>, None),
       [(e_rg, ''deleted'')] @ call uninstall_options e_bogus ''unknown'' @
         [(e_b, ''removed''), (e_a, ''removed'')], mk_world tree_t)"
    by (rule fails [OF split reach unknown [THEN conjunct1] unknown [THEN conjunct2, THEN conjunct1]
          unknown [THEN conjunct2, THEN conjunct2] rest])
  then show ?thesis
    using split op
    by (simp add: add_result_def error_record_def call_def e_bogus_def zero_Entry_def)
qed

section \<open>Claims about restores and the recorder\<close>

text \<open>
  Claim C10. A \<open>file_overwrite\<close> entry with a backup path, whose path is absent when it is
  replayed (\<open>Lstat\<close> answers \<open>ENOENT\<close>) and whose backup is a regular file: the missing
  destination passes the drift check, whatever the checksum of the entry. A replay that
  is not a dry run restores the content of the backup at the path with the mode of the
  original, returns the label \<open>restored\<close>, counts the entry as processed and reports
  neither drift nor an error; the backup is removed unless \<open>KeepBackups\<close> is set. (In a
  dry run the label is \<open>would restore\<close> and nothing is changed.)
\<close>

theorem overwrite_restores_when_path_is_absent:
  assumes "Op e = OpFileOverwrite" and "Original e = Some orig" and "BackupPath orig \<noteq> []"
    and "os_Lstat w (Path e) = Inl (PathError ENOENT)"
    and "os_Lstat w (BackupPath orig) = Inr (File bst c)"
  shows "(DryRun opts \<longrightarrow> replayEntry e opts w = ((''would restore'', None), w)) \<and>
    (\<not> DryRun opts \<longrightarrow>
       (\<exists>w' st. replayEntry e opts w = ((''restored'', None), w') \<and>
          ReverseReplay (l\<lparr>Entries := [e]\<rparr>) opts w =
            ((\<lparr>Processed = 1, Skipped = 0, Errors = [], ModifiedFiles = []\<rparr>, None),
             call opts e ''restored'', w') \<and>
          os_Lstat w' (Path e) = Inr (File st c) \<and> st_mode st = OMode orig AND 0x1FF \<and>
          os_Lstat w' (BackupPath orig) =
            (if KeepBackups opts then Inr (File bst c) else Inl (PathError ENOENT))))"
proof -
  have absent: "lookup (root w) (Path e) = Inl ENOENT"
    using assms(4) by (simp add: os_Lstat_error)
  have backup: "lookup (root w) (BackupPath orig) = Inr (File bst c)"
    using assms(5) by (simp add: os_Lstat_lookup)
  have over: "replayEntry e opts w = replayFileOverwrite e opts w"
    using assms(1) by (simp add: replayEntry_def OpFileOverwrite_def OpFileCreate_def OpFileDelete_def)
  have rm: "snd (os_Remove w (Path e)) = w"
    using os_Remove_absent [OF absent] .
  have body: "replayFileOverwrite e opts w =
      (if DryRun opts then ((''would restore'', None), w) else restoreFromBackup e orig opts w)"
    using assms(2,3) rm by (simp add: replayFileOverwrite_def VerifyChecksum_absent [OF absent])
  from restoreFromBackup_ok [OF absent backup, of opts] obtain r' st where
    r: "restoreFromBackup e orig opts w = ((''restored'', None), w\<lparr>root := r'\<rparr>)"
    "lookup r' (Path e) = Inr (File st c)" "st_mode st = OMode orig AND 0x1FF"
    "lookup r' (BackupPath orig) = (if KeepBackups opts then Inr (File bst c) else Inl ENOENT)"
    by blast
  show ?thesis
  proof (intro conjI impI)
    assume "DryRun opts"
    then show "replayEntry e opts w = ((''would restore'', None), w)"
      using over body by simp
  next
    assume nd: "\<not> DryRun opts"
    have re: "replayEntry e opts w = ((''restored'', None), w\<lparr>root := r'\<rparr>)"
      using over body r(1) nd by simp
    then have "ReverseReplay (l\<lparr>Entries := [e]\<rparr>) opts w =
            ((\<lparr>Processed = 1, Skipped = 0, Errors = [], ModifiedFiles = []\<rparr>, None),
             call opts e ''restored'', w\<lparr>root := r'\<rparr>)"
      by (simp add: ReverseReplay_single replayStep_def empty_ReplayResult_def call_def)
    with re r(2,3,4) show "\<exists>w' st. replayEntry e opts w = ((''restored'', None), w') \<and>
          ReverseReplay (l\<lparr>Entries := [e]\<rparr>) opts w =
            ((\<lparr>Processed = 1, Skipped = 0, Errors = [], ModifiedFiles = []\<rparr>, None),
             call opts e ''restored'', w') \<and>
          os_Lstat w' (Path e) = Inr (File st c) \<and> st_mode st = OMode orig AND 0x1FF \<and>
          os_Lstat w' (BackupPath orig) =
            (if KeepBackups opts then Inr (File bst c) else Inl (PathError ENOENT))"
      by (intro exI [of _ "w\<lparr>root := r'\<rparr>"] exI [of _ st]) (simp add: os_Lstat_def)
  qed
qed

theorem overwrite_restores_when_path_is_absent_witness:
  "Op e_cfg = OpFileOverwrite \<and> Original e_cfg = Some orig_cfg \<and> BackupPath orig_cfg \<noteq> [] \<and>
   os_Lstat (mk_world (tree_cfg None (Some (File bak_st ''old'')))) (Path e_cfg) =
     Inl (PathError ENOENT) \<and>
   os_Lstat (mk_world (tree_cfg None (Some (File bak_st ''old'')))) (BackupPath orig_cfg) =
     Inr (File bak_st ''old'') \<and>
   \<not> DryRun uninstall_options \<and>
   (\<exists>w' st. replayEntry e_cfg uninstall_options (mk_world (tree_cfg None (Some (File bak_st ''old'')))) =
        ((''restored'', None), w') \<and>
      ReverseReplay ((ledger_of [])\<lparr>Entries := [e_cfg]\<rparr>) uninstall_options
          (mk_world (tree_cfg None (Some (File bak_st ''old'')))) =
        ((\<lparr>Processed = 1, Skipped = 0, Errors = [], ModifiedFiles = []\<rparr>, None),
         call uninstall_options e_cfg ''restored'', w') \<and>
      os_Lstat w' (Path e_cfg) = Inr (File st ''old'') \<and> st_mode st = OMode orig_cfg AND 0x1FF \<and>
      os_Lstat w' (BackupPath orig_cfg) =
        (if KeepBackups uninstall_options then Inr (File bak_st ''old'')
         else Inl (PathError ENOENT)))"
proof -
  let ?w = "mk_world (tree_cfg None (Some (File bak_st ''old'')))"
  have h1: "Op e_cfg = OpFileOverwrite" by (simp add: e_cfg_def)
  have h2: "Original e_cfg = Some orig_cfg" by (simp add: e_cfg_def)
  have h3: "BackupPath orig_cfg \<noteq> []" by (simp add: orig_cfg_def p_bak_def)
  have h4: "os_Lstat ?w (Path e_cfg) = Inl (PathError ENOENT)"
    by (simp add: os_defs scenario_defs)
  have h5: "os_Lstat ?w (BackupPath orig_cfg) = Inr (File bak_st ''old'')"
    by (simp add: os_defs scenario_defs)
  have h6: "\<not> DryRun uninstall_options" by simp
  from overwrite_restores_when_path_is_absent
    [OF h1 h2 h3 h4 h5, of uninstall_options "ledger_of []", THEN conjunct2, THEN mp, OF h6]
    h1 h2 h3 h4 h5 h6
  show ?thesis by simp
qed

text \<open>Scenario S2 as the code runs it: the original content is back with its mode and
  modification time, and the backup is gone.\<close>

lemma S2_restore:
  "ReverseReplay (ledger_of [e_cfg]) uninstall_options
       (mk_world (tree_cfg (Some (File cfg_st ''new'')) (Some (File bak_st ''old'')))) =
     ((\<lparr>Processed = 1, Skipped = 0, Errors = [], ModifiedFiles = []\<rparr>, None),
      [(e_cfg, ''restored'')], mk_world (tree_cfg (Some (File cfg_st ''old'')) None))"
  by (simp add: os_defs replay_defs scenario_defs)

text \<open>
  Claim C9, amended. A \<open>file_delete\<close> entry whose original was a symbolic link has no
  backup path. Its replay never changes the file system, so the link is never made again.
  When something exists at the path the entry is skipped with \<open>skip (exists)\<close> and there
  is no \<open>ReplayError\<close>; only when \<open>Lstat\<close> fails is the error \<open>no backup path\<close>
  recorded.
\<close>

theorem symlink_deletion_is_never_undone:
  assumes "Op e = OpFileDelete" and "Original e = Some orig" and "BackupPath orig = []"
  shows "replayEntry e opts w =
      (case os_Lstat w (Path e) of
         Inr info \<Rightarrow> ((''skip (exists)'', Some errSkipped), w)
       | Inl err \<Rightarrow> ((''error'', Some (ErrorString ''no backup path'')), w)) \<and>
    ReverseReplay (l\<lparr>Entries := [e]\<rparr>) opts w =
      (case os_Lstat w (Path e) of
         Inr info \<Rightarrow> ((skip_record, None), call opts e ''skip (exists)'', w)
       | Inl err \<Rightarrow> ((error_record e (ErrorString ''no backup path''), None),
           call opts e ''error'', w))"
  using assms
  by (simp add: replayEntry_def replayFileDelete_def ReverseReplay_single replayStep_def
      OpFileDelete_def OpFileCreate_def skip_record_def error_record_def call_def
      empty_ReplayResult_def split: sum.splits)

theorem symlink_deletion_is_never_undone_witness:
  "Op e_unlinked = OpFileDelete \<and>
   Original e_unlinked = Some (zero_OriginalFile\<lparr>OMode := 0x1FF, OTarget := [''opt'', ''rg''],
       ModTime := 5\<rparr>) \<and>
   BackupPath (zero_OriginalFile\<lparr>OMode := 0x1FF, OTarget := [''opt'', ''rg''], ModTime := 5\<rparr>) = [] \<and>
   ReverseReplay (ledger_of [e_unlinked]) uninstall_options (mk_world tree_b) =
     ((error_record e_unlinked (ErrorString ''no backup path''), None),
      [(e_unlinked, ''error'')], mk_world tree_b)"
proof -
  let ?orig = "zero_OriginalFile\<lparr>OMode := 0x1FF, OTarget := [''opt'', ''rg''], ModTime := 5\<rparr>"
  have h1: "Op e_unlinked = OpFileDelete" by (simp add: e_unlinked_def)
  have h2: "Original e_unlinked = Some ?orig" by (simp add: e_unlinked_def)
  have h3: "BackupPath ?orig = []" by (simp add: zero_OriginalFile_def)
  have absent: "os_Lstat (mk_world tree_b) (Path e_unlinked) = Inl (PathError ENOENT)"
    by (simp add: os_defs scenario_defs)
  from symlink_deletion_is_never_undone
    [OF h1 h2 h3, of uninstall_options "mk_world tree_b" "ledger_of []", THEN conjunct2]
    h1 h2 h3 absent
  show ?thesis by (simp add: call_def)
qed

text \<open>
  Claim C9 as it is written says that the replay of such an entry always returns the
  error. Here a file exists at the path: the entry is skipped and \<open>Errors\<close> is empty.
\<close>

theorem symlink_deletion_skipped_when_path_exists:
  "Op e_unlinked = OpFileDelete \<and>
   (\<exists>orig. Original e_unlinked = Some orig \<and> OTarget orig \<noteq> [] \<and> BackupPath orig = []) \<and>
   ReverseReplay (ledger_of [e_unlinked]) uninstall_options
       (mk_world (tree_rg (File file_st ''binary''))) =
     ((\<lparr>Processed = 0, Skipped = 1, Errors = [], ModifiedFiles = []\<rparr>, None),
      [(e_unlinked, ''skip (exists)'')], mk_world (tree_rg (File file_st ''binary'')))"
  by (simp add: os_defs replay_defs scenario_defs)

text \<open>The recorder does produce such entries: for a symbolic link \<open>RecordFileDelete\<close>
  records the target and no backup path.\<close>

lemma RecordFileDelete_symlink:
  assumes "os_Lstat w p = Inr (Symlink st t)" and "RecordFileDelete r p w = (None, r', w')"
  shows "\<exists>e orig. Entries (ledger r') = Entries (ledger r) @ [e] \<and> Op e = OpFileDelete \<and>
    Path e = p \<and> Original e = Some orig \<and> BackupPath orig = [] \<and> OTarget orig = t"
  using assms
  by (auto simp add: RecordFileDelete_def os_Readlink_def record_entry_def Record_def Let_def
      zero_Entry_def zero_OriginalFile_def split: prod.splits option.splits if_splits)

text \<open>
  Claim C6, amended. On a path that does not exist \<open>PrepareOverwrite\<close> returns
  \<open>(nil, nil)\<close>, the benign signal, and changes nothing; \<open>RecordFileDelete\<close> returns the
  error \<open>stat file: ...\<close> around the error of \<open>Lstat\<close>, records nothing and changes
  nothing.
\<close>

theorem missing_path_is_benign_for_PrepareOverwrite_only:
  assumes "os_Lstat w p = Inl err" and "os_IsNotExist err"
  shows "PrepareOverwrite r p w = (Inr None, w) \<and>
    RecordFileDelete r p w = (Some (Wrapped ''stat file'' err), r, w)"
  using assms by (simp add: PrepareOverwrite_def RecordFileDelete_def)

theorem missing_path_is_benign_for_PrepareOverwrite_only_witness:
  "os_Lstat (mk_world tree_t) [''nonexistent'', ''file.txt''] = Inl (PathError ENOENT) \<and>
   os_IsNotExist (PathError ENOENT) \<and>
   PrepareOverwrite recorder_rg [''nonexistent'', ''file.txt''] (mk_world tree_t) =
     (Inr None, mk_world tree_t)"
proof -
  have h1: "os_Lstat (mk_world tree_t) [''nonexistent'', ''file.txt''] = Inl (PathError ENOENT)"
    by (simp add: os_defs scenario_defs)
  have h2: "os_IsNotExist (PathError ENOENT)" by simp
  from missing_path_is_benign_for_PrepareOverwrite_only [OF h1 h2, of recorder_rg] h1 h2
  show ?thesis by simp
qed

text \<open>Claim C6 as it is written fails for \<open>RecordFileDelete\<close>: on a path that does not
  exist it returns an error.\<close>

theorem RecordFileDelete_missing_path_is_an_error:
  "os_Lstat (mk_world tree_t) [''nonexistent'', ''file.txt''] = Inl (PathError ENOENT) \<and>
   RecordFileDelete recorder_rg [''nonexistent'', ''file.txt''] (mk_world tree_t) =
     (Some (Wrapped ''stat file'' (PathError ENOENT)), recorder_rg, mk_world tree_t)"
  by (simp add: RecordFileDelete_def os_defs scenario_defs)

text \<open>
  Claim C8. Let a destructive operation of the recorder (\<open>PrepareOverwrite\<close> for a
  \<open>file_overwrite\<close>, \<open>RecordFileDelete\<close> for a \<open>file_delete\<close>) displace a regular
  file, so that the original it makes has a checksum. Then the backup path of the original
  is \<open>backupDir/pkg/checksum\<close> and the backup is there when the operation returns. Let a
  second destructive operation, of either kind, by a recorder of the same package and
  store, right away or in any later world in which the backup still exists, displace a file
  with the same checksum. Then its original has the same backup path, its put
  (\<open>createBackup\<close>) skips the copy and returns that path with the world as it was, and all
  the operation changes is the ledger file, by the line of the entry it records
  (\<open>PrepareOverwrite\<close> records nothing and changes nothing). The backup is still there
  afterwards: one file for the two originals.
\<close>

theorem two_displacements_share_one_backup:
  assumes "displace op1 r p1 w = (Inr (Some o1), r1, w1)"
    and "OChecksum o1 \<noteq> []"
    and "backupDir rm = backupDir r" and "pkg rm = pkg r"
    and "os_Stat wm (backup_path r (OChecksum o1)) = Inr info"
    and "displace op2 rm p2 wm = (Inr (Some o2), r2, w2)"
    and "OChecksum o2 = OChecksum o1"
  shows "BackupPath o1 = backup_path r (OChecksum o1) \<and>
    (\<exists>info1. os_Stat w1 (BackupPath o1) = Inr info1) \<and>
    BackupPath o2 = BackupPath o1 \<and>
    createBackup rm p2 (OChecksum o2) wm = (Inr (BackupPath o1), wm) \<and>
    (op2 = Overwrite \<longrightarrow> w2 = wm) \<and>
    (op2 = Deletion \<longrightarrow>
       (\<exists>h line. lfile (ledger rm) = Some h \<and> os_Write wm h line = (None, w2))) \<and>
    (\<exists>info2. os_Stat w2 (BackupPath o1) = Inr info2)"
proof -
  let ?k = "OChecksum o1"
  let ?B = "backup_path r ?k"
  have first: "BackupPath o1 = ?B \<and> (\<exists>info1. os_Stat w1 ?B = Inr info1)"
  proof (cases op1)
    case Overwrite
    with assms(1) have "PrepareOverwrite r p1 w = (Inr (Some o1), w1)"
      by (auto split: prod.splits)
    from createBackup_result [OF PrepareOverwrite_backup [OF this assms(2)]]
    show ?thesis by (auto simp add: backup_path_def)
  next
    case Deletion
    with assms(1) have rd: "RecordFileDelete r p1 w = (None, r1, w1)"
      and o: "Original (last (Entries (ledger r1))) = Some o1"
      by (auto split: prod.splits option.splits)
    from RecordFileDelete_backup [OF rd o assms(2)] obtain w' h line where
      cb: "createBackup r p1 ?k w = (Inr (BackupPath o1), w')"
      and wr: "os_Write w' h line = (None, w1)" by blast
    from createBackup_result [OF cb] obtain i where
      b: "BackupPath o1 = ?B" and s: "os_Stat w' ?B = Inr i" by (auto simp add: backup_path_def)
    from os_Write_keeps_Stat [OF wr s] b show ?thesis by simp
  qed
  have Bm: "backup_path rm ?k = ?B" using assms(3,4) by (simp add: backup_path_def)
  have skip: "createBackup rm p2 ?k wm = (Inr ?B, wm)"
    using createBackup_existing [OF assms(2), of wm rm info p2] assms(5) Bm
    by (simp add: backup_path_def)
  have second: "BackupPath o2 = ?B \<and> (op2 = Overwrite \<longrightarrow> w2 = wm) \<and>
    (op2 = Deletion \<longrightarrow> (\<exists>h line. lfile (ledger rm) = Some h \<and> os_Write wm h line = (None, w2))) \<and>
    (\<exists>info2. os_Stat w2 ?B = Inr info2)"
  proof (cases op2)
    case Overwrite
    with assms(6) have "PrepareOverwrite rm p2 wm = (Inr (Some o2), w2)"
      by (auto split: prod.splits)
    from PrepareOverwrite_backup [OF this] assms(2,7) skip assms(5) Overwrite
    show ?thesis by auto
  next
    case Deletion
    with assms(6) have rd: "RecordFileDelete rm p2 wm = (None, r2, w2)"
      and o: "Original (last (Entries (ledger r2))) = Some o2"
      by (auto split: prod.splits option.splits)
    from RecordFileDelete_backup [OF rd o] assms(2,7) obtain w' h line where
      cb: "createBackup rm p2 ?k wm = (Inr (BackupPath o2), w')"
      and lf: "lfile (ledger rm) = Some h"
      and wr: "os_Write w' h line = (None, w2)" by auto
    from cb skip have b: "BackupPath o2 = ?B" and w': "w' = wm" by simp_all
    from os_Write_keeps_Stat [OF wr [unfolded w'] assms(5)] b lf wr w' Deletion
    show ?thesis by auto
  qed
  show ?thesis using first second skip assms(7) by simp
qed

theorem two_displacements_share_one_backup_witness:
  "displace Overwrite (recorder_of []) p_cfg (mk_world (tree_dup None [''ledger ripgrep''])) =
     (Inr (Some orig_cfg), recorder_of [],
      mk_world (tree_dup (Some (File bak_st ''old'')) [''ledger ripgrep''])) \<and>
   OChecksum orig_cfg = ''sha256:old'' \<and>
   displace Deletion (recorder_of []) p_motd
       (mk_world (tree_dup (Some (File bak_st ''old'')) [''ledger ripgrep''])) =
     (Inr (Some orig_cfg), recorder_of [e_motd],
      mk_world (tree_dup (Some (File bak_st ''old''))
        [''ledger ripgrep'', ''file_delete /etc/motd at 100''])) \<and>
   BackupPath orig_cfg = p_bak \<and>
   createBackup (recorder_of []) p_motd ''sha256:old''
       (mk_world (tree_dup (Some (File bak_st ''old'')) [''ledger ripgrep''])) =
     (Inr p_bak, mk_world (tree_dup (Some (File bak_st ''old'')) [''ledger ripgrep'']))"
proof -
  let ?wa = "mk_world (tree_dup None [''ledger ripgrep''])"
  let ?wb = "mk_world (tree_dup (Some (File bak_st ''old'')) [''ledger ripgrep''])"
  let ?wc = "mk_world (tree_dup (Some (File bak_st ''old''))
        [''ledger ripgrep'', ''file_delete /etc/motd at 100''])"
  have h1: "displace Overwrite (recorder_of []) p_cfg ?wa = (Inr (Some orig_cfg), recorder_of [], ?wb)"
    by (simp add: os_defs ledger_defs install_defs createBackup_def scenario_defs)
  have h2: "OChecksum orig_cfg \<noteq> []" by (simp add: orig_cfg_def)
  have h5: "os_Stat ?wb (backup_path (recorder_of []) (OChecksum orig_cfg)) = Inr (File bak_st ''old'')"
    by (simp add: backup_path_def os_defs scenario_defs)
  have h6: "displace Deletion (recorder_of []) p_motd ?wb =
      (Inr (Some orig_cfg), recorder_of [e_motd], ?wc)"
    by (simp add: os_defs ledger_defs install_defs RecordFileDelete_def createBackup_def
        scenario_defs)
  note inst = two_displacements_share_one_backup [OF h1 h2 refl refl h5 h6 refl]
  have k: "OChecksum orig_cfg = ''sha256:old''" and b: "BackupPath orig_cfg = p_bak"
    by (simp_all add: orig_cfg_def)
  from inst [THEN conjunct2, THEN conjunct2, THEN conjunct2, THEN conjunct1] h1 h6 k b
  show ?thesis by simp
qed

section \<open>Claims about a second replay\<close>

text \<open>
  Claim C2 as it is written fails for a \<open>file_overwrite\<close> entry. The first replay of
  scenario S2 restores the original and removes the backup; the second replay finds at
  the path content that is not what the install wrote, reports the entry as modified and
  puts it in \<open>Errors\<close>: it is not skipped.
\<close>

theorem second_replay_of_overwrite_is_not_skipped:
  "ReverseReplay (ledger_of [e_cfg]) uninstall_options
       (mk_world (tree_cfg (Some (File cfg_st ''new'')) (Some (File bak_st ''old'')))) =
     ((\<lparr>Processed = 1, Skipped = 0, Errors = [], ModifiedFiles = []\<rparr>, None),
      [(e_cfg, ''restored'')], mk_world (tree_cfg (Some (File cfg_st ''old'')) None)) \<and>
   ReverseReplay (ledger_of [e_cfg]) uninstall_options
       (mk_world (tree_cfg (Some (File cfg_st ''old'')) None)) =
     ((\<lparr>Processed = 0, Skipped = 0, Errors = [\<lparr>REntry = e_cfg, Err = errModified\<rparr>],
        ModifiedFiles = [p_cfg]\<rparr>, None),
      [(e_cfg, ''modified'')], mk_world (tree_cfg (Some (File cfg_st ''old'')) None))"
  by (simp add: os_defs replay_defs scenario_defs)

text \<open>When the install wrote the content that was there before, the second replay passes
  the drift check, removes the restored file and then fails for the backup that the first
  replay removed: the file is lost.\<close>

lemma second_replay_of_overwrite_can_destroy:
  "ReverseReplay (ledger_of [e_same]) uninstall_options
       (mk_world (tree_cfg (Some (File cfg_st ''old'')) (Some (File bak_st ''old'')))) =
     ((\<lparr>Processed = 1, Skipped = 0, Errors = [], ModifiedFiles = []\<rparr>, None),
      [(e_same, ''restored'')], mk_world (tree_cfg (Some (File cfg_st ''old'')) None)) \<and>
   ReverseReplay (ledger_of [e_same]) uninstall_options
       (mk_world (tree_cfg (Some (File cfg_st ''old'')) None)) =
     ((\<lparr>Processed = 0, Skipped = 0,
        Errors = [\<lparr>REntry = e_same, Err = Wrapped ''restore from backup'' (PathError ENOENT)\<rparr>],
        ModifiedFiles = []\<rparr>, None),
      [(e_same, ''error'')], mk_world (tree_cfg None None))"
  by (simp add: os_defs replay_defs scenario_defs)

text \<open>
  Claim C2, amended. Take a ledger of creation entries (\<open>file_create\<close>, \<open>dir_create\<close>,
  \<open>symlink_create\<close>, \<open>hardlink_create\<close>) and a first replay, with any options, in which
  every entry was undone or was not found (labels \<open>deleted\<close>, \<open>removed\<close>,
  \<open>skip (not found)\<close>). Then a second replay, from the world the first one left, changes
  nothing, skips every entry with \<open>skip (not found)\<close> and has no errors.
  And a \<open>file_delete\<close> entry that a replay has restored is skipped with \<open>skip (exists)\<close>,
  without a change, when it is replayed again in the world the restore left.
\<close>

theorem second_replay_skips_what_was_undone:
  assumes "\<forall>e\<in>set es. creation e"
    and "set (replay_labels opts (rev es) w) \<subseteq> set undone_labels"
    and "ReverseReplay (l\<lparr>Entries := es\<rparr>) opts w = ((r1, x1), c1, w1)"
  shows "ReverseReplay (l\<lparr>Entries := es\<rparr>) opts w1 =
      ((\<lparr>Processed = 0, Skipped = int (length es), Errors = [], ModifiedFiles = []\<rparr>, None),
       concat (map (\<lambda>e. call opts e ''skip (not found)'') (rev es)), w1) \<and>
    (\<forall>d wa wb. Op d = OpFileDelete \<longrightarrow> replayEntry d opts wa = ((''restored'', None), wb) \<longrightarrow>
       replayEntry d opts wb = ((''skip (exists)'', Some errSkipped), wb))"
  using second_replay_of_creations [OF assms] restored_delete_is_skipped by blast

theorem second_replay_skips_what_was_undone_witness:
  "list_all creation [e_a, e_b, e_rg] \<and>
   replay_labels uninstall_options (rev [e_a, e_b, e_rg])
       (mk_world (tree_rg (File file_st ''binary''))) = [''deleted'', ''removed'', ''removed''] \<and>
   ReverseReplay (ledger_of [e_a, e_b, e_rg]) uninstall_options
       (mk_world (tree_rg (File file_st ''binary''))) =
     ((\<lparr>Processed = 3, Skipped = 0, Errors = [], ModifiedFiles = []\<rparr>, None),
      [(e_rg, ''deleted''), (e_b, ''removed''), (e_a, ''removed'')], mk_world tree_t) \<and>
   ReverseReplay (ledger_of [e_a, e_b, e_rg]) uninstall_options (mk_world tree_t) =
     ((\<lparr>Processed = 0, Skipped = 3, Errors = [], ModifiedFiles = []\<rparr>, None),
      [(e_rg, ''skip (not found)''), (e_b, ''skip (not found)''), (e_a, ''skip (not found)'')],
      mk_world tree_t) \<and>
   Op e_gone = OpFileDelete \<and>
   replayEntry e_gone uninstall_options (mk_world (tree_cfg None (Some (File bak_st ''old'')))) =
     ((''restored'', None), mk_world (tree_cfg (Some (File cfg_st ''old'')) None)) \<and>
   replayEntry e_gone uninstall_options (mk_world (tree_cfg (Some (File cfg_st ''old'')) None)) =
     ((''skip (exists)'', Some errSkipped), mk_world (tree_cfg (Some (File cfg_st ''old'')) None))"
proof -
  let ?w = "mk_world (tree_rg (File file_st ''binary''))"
  have h1: "\<forall>e\<in>set [e_a, e_b, e_rg]. creation e"
    by (simp add: creation_def replay_defs scenario_defs)
  have labels: "replay_labels uninstall_options (rev [e_a, e_b, e_rg]) ?w =
      [''deleted'', ''removed'', ''removed'']"
    by (simp add: os_defs replay_defs scenario_defs)
  have h2: "set (replay_labels uninstall_options (rev [e_a, e_b, e_rg]) ?w) \<subseteq> set undone_labels"
    unfolding labels by (simp add: undone_labels_def)
  have h3: "ReverseReplay ((ledger_of [])\<lparr>Entries := [e_a, e_b, e_rg]\<rparr>) uninstall_options ?w =
      ((\<lparr>Processed = 3, Skipped = 0, Errors = [], ModifiedFiles = []\<rparr>, None),
       [(e_rg, ''deleted''), (e_b, ''removed''), (e_a, ''removed'')], mk_world tree_t)"
    by (simp add: os_defs replay_defs scenario_defs)
  have h4: "Op e_gone = OpFileDelete" by (simp add: e_gone_def)
  have h5: "replayEntry e_gone uninstall_options (mk_world (tree_cfg None (Some (File bak_st ''old'')))) =
      ((''restored'', None), mk_world (tree_cfg (Some (File cfg_st ''old'')) None))"
    by (simp add: os_defs replay_defs scenario_defs)
  note inst = second_replay_skips_what_was_undone [OF h1 h2 h3]
  from inst [THEN conjunct1] inst [THEN conjunct2, rule_format, OF h4 h5] h1 labels h3 h4 h5
  show ?thesis by (simp add: call_def list_all_iff)
qed

section \<open>Claims about the ledger file\<close>




text \<open>The bound on the length of a line is needed. When the line of an entry has 65536
  bytes or more, \<open>Record\<close> writes it and \<open>Open\<close> fails as a whole.\<close>

lemma too_long_entry_is_not_read_back:
  assumes "Create dir pk source w = (Inr l, w0)"
    and "Record l e w0 = (None, l', w')"
    and "faithful_Header w \<lparr>Version = CurrentVersion, Package = pk, InstalledAt = now w,
           Source = source, SourceChecksum = []\<rparr>"
    and "marshal_Entry w (stamp (now w) e) = Inr d"
    and "CHR 0x0A \<notin> set d" and "MaxScanTokenSize \<le> length d"
  shows "Open w' dir pk = Inl (Wrapped ''read ledger'' ErrTooLong)"
proof -
  let ?P = "ledger_Path dir pk"
  let ?H = "\<lparr>Version = CurrentVersion, Package = pk, InstalledAt = now w,
           Source = source, SourceChecksum = []\<rparr>"
  have P: "?P \<noteq> []" by (simp add: ledger_Path_snoc)
  from Create_result [OF assms(1)] obtain st hl where
    l: "l = \<lparr>LHeader = ?H, Entries = [], lpath = ?P, lfile = Some ?P\<rparr>"
    and hl: "marshal_Header w ?H = Inr hl" and w0: "w0 = w\<lparr>root := root w0\<rparr>"
    and f0: "lookup (root w0) ?P = Inr (File st (text_line hl))" by auto
  have same0: "marshal_Entry w0 = marshal_Entry w" "now w0 = now w"
    using w0 by (metis world.select_convs world.surjective world.update_convs(1))+
  have lf: "lfile l = Some ?P" using l by simp
  from Record_result [OF lf P f0 assms(2)] assms(4) obtain st1 where
    w': "w' = w0\<lparr>root := root w'\<rparr>"
    and f': "lookup (root w') ?P = Inr (File st1 (text_line hl @ text_line d))"
    unfolding same0 by auto
  have same': "unmarshal_Header w' = unmarshal_Header w"
    using w0 w' by (metis world.select_convs world.surjective world.update_convs(1))
  have hok: "line_ok hl" "unmarshal_Header w' hl = Inr ?H"
    using assms(3) hl same' by (simp_all add: faithful_Header_def)
  have "scan [] (d @ [CHR 0x0A]) = ([], Some ErrTooLong)"
    using scan_too_long [of d "[]" "[CHR 0x0A]"] assms(5,6) by (simp add: MaxScanTokenSize_def)
  then have sc: "scan [] (text_line hl @ text_line d) = ([hl], Some ErrTooLong)"
    using scan_line [OF hok(1), of "text_line d"] by (simp add: text_line_def)
  show ?thesis
    using os_Open_File [OF f'] os_Read_File [OF f'] sc hok(2)
    by (simp add: Open_def OpenPath_def)
qed

section \<open>Claims about the installer\<close>

text \<open>
  Claim C5. Let \<open>Install\<close> reach the loop over the steps (the package is loaded, it is
  not installed yet, the run is not a dry run, the source is fetched and the ledger is
  created), let the steps before some step succeed and let that step fail with \<open>err\<close>.
  Then \<open>Install\<close> returns an error, not success: \<open>err\<close> wrapped in a message that gives
  the number and the type of the step. The world it leaves is the one after the failed step,
  with the ledger of the recorder replayed in reverse with \<open>Force\<close> set and not as a dry
  run, then the ledger file removed, then the source directory removed. The ledger that is
  replayed is the one at the path \<open>Create\<close> made, holding what the earlier steps
  recorded and what the failed step recorded before it failed. After the removal nothing is
  left at the path of the ledger, unless there is a directory.
\<close>

theorem failing_step_is_rolled_back:
  assumes "loadPackage = Inr (location, expandedSteps)"
    and "\<not> Exists w (LedgerDir i) name"
    and "\<not> IDryRun i"
    and "fetchSource w = (Inr srcDir, w1)"
    and "Create (LedgerDir i) name location w1 = (Inr ledg, w2)"
    and "expandedSteps srcDir = pre @ step # post"
    and "install_steps i srcDir 0 pre (NewRecorder ledg (BackupDir i)) w2 = (None, r1, w3)"
    and "executeStep step srcDir r1 w3 = (Some err, r2, w4)"
  shows "Install i name loadPackage fetchSource w =
      (Some (step_error (length pre + 1) step err), os_RemoveAll (rolled_back r2 w4) srcDir) \<and>
    errors_Is (step_error (length pre + 1) step err) err \<and>
    Force rollback_options \<and> \<not> DryRun rollback_options \<and>
    lpath (ledger r2) = ledger_Path (LedgerDir i) name \<and>
    prefix (Entries (ledger r1)) (Entries (ledger r2)) \<and>
    (\<forall>n. lookup (root (rolled_back r2 w4)) (ledger_Path (LedgerDir i) name) = Inr n \<longrightarrow> IsDir n)"
proof -
  let ?P = "ledger_Path (LedgerDir i) name"
  let ?r0 = "NewRecorder ledg (BackupDir i)"
  have P: "?P \<noteq> []" by (simp add: ledger_Path_snoc)
  from Create_result [OF assms(5)] have lp: "lpath ledg = ?P" by auto
  have m1: "recorded_more ?r0 r1" using install_steps_more [OF assms(7)] .
  have m2: "recorded_more r1 r2" using executeStep_more [OF assms(8)] .
  have path: "lpath (ledger r2) = ?P"
    using m1 m2 lp by (simp add: recorded_more_def NewRecorder_def)
  have run: "install_steps i srcDir 0 (pre @ step # post) ?r0 w2 =
      (Some (step_error (length pre + 1) step err), r2\<lparr>ledger := (ledger r2)\<lparr>lfile := None\<rparr>\<rparr>,
       rolled_back r2 w4)"
    using install_steps_append [OF assms(7), of "step # post"]
      install_steps_failure [OF assms(8), of i "length pre" post] by simp
  have inst: "Install i name loadPackage fetchSource w =
      (Some (step_error (length pre + 1) step err), os_RemoveAll (rolled_back r2 w4) srcDir)"
    using assms(1-6) run by (simp add: Install_def)
  have gone: "\<forall>n. lookup (root (rolled_back r2 w4)) ?P = Inr n \<longrightarrow> IsDir n"
    using os_Remove_no_leaf [OF P] path by (auto simp add: rolled_back_def)
  show ?thesis
    using inst path m2 gone by (simp add: step_error_def rollback_options_def recorded_more_def)
qed

theorem failing_step_is_rolled_back_witness:
  "\<not> Exists (mk_world (tree_inst [] [(''ripgrep'', Dir dir_st [])] None)) [''ledgers''] ''ripgrep'' \<and>
   Create [''ledgers''] ''ripgrep'' ''src'' (mk_world (tree_inst [] [(''ripgrep'', Dir dir_st [])] None)) =
     (Inr (ledger_open []),
      mk_world (tree_inst [] [(''ripgrep'', Dir dir_st [])] (Some [''ledger ripgrep'']))) \<and>
   install_steps installer_rg p_src 0 [step_mkdir] (recorder_of [])
       (mk_world (tree_inst [] [(''ripgrep'', Dir dir_st [])] (Some [''ledger ripgrep'']))) =
     (None, recorder_of [e_a\<lparr>Timestamp := 100\<rparr>],
      mk_world (tree_inst [(''a'', Dir (dir_st\<lparr>st_mtime := 100\<rparr>) [])]
        [(''ripgrep'', Dir dir_st [])] (Some [''ledger ripgrep'', ''dir_create /tmp/t/a at 100'']))) \<and>
   executeStep step_copy p_src (recorder_of [e_a\<lparr>Timestamp := 100\<rparr>])
       (mk_world (tree_inst [(''a'', Dir (dir_st\<lparr>st_mtime := 100\<rparr>) [])]
         [(''ripgrep'', Dir dir_st [])] (Some [''ledger ripgrep'', ''dir_create /tmp/t/a at 100'']))) =
     (Some (Wrapped ''open source'' (PathError ENOENT)), recorder_of [e_a\<lparr>Timestamp := 100\<rparr>],
      mk_world (tree_inst [(''a'', Dir (dir_st\<lparr>st_mtime := 100\<rparr>) [])]
        [(''ripgrep'', Dir dir_st [])] (Some [''ledger ripgrep'', ''dir_create /tmp/t/a at 100'']))) \<and>
   Install installer_rg ''ripgrep'' (Inr (''src'', \<lambda>srcDir. [step_mkdir, step_copy]))
       (\<lambda>w. (Inr p_src, w)) (mk_world (tree_inst [] [(''ripgrep'', Dir dir_st [])] None)) =
     (Some (Wrapped ''step 2 (copy)'' (Wrapped ''open source'' (PathError ENOENT))),
      mk_world (tree_inst [] [] (Some [])))"
proof -
  let ?src = "[(''ripgrep'', Dir dir_st [])]"
  let ?wa = "mk_world (tree_inst [] ?src None)"
  let ?wb = "mk_world (tree_inst [] ?src (Some [''ledger ripgrep'']))"
  let ?wc = "mk_world (tree_inst [(''a'', Dir (dir_st\<lparr>st_mtime := 100\<rparr>) [])] ?src
        (Some [''ledger ripgrep'', ''dir_create /tmp/t/a at 100'']))"
  let ?ra = "recorder_of []"
  let ?rb = "recorder_of [e_a\<lparr>Timestamp := 100\<rparr>]"
  let ?load = "Inr (''src'', \<lambda>srcDir :: path. [step_mkdir, step_copy]) ::
      error + string \<times> (path \<Rightarrow> InstallStep list)"
  let ?fetch = "\<lambda>w :: world. (Inr p_src :: error + path, w)"
  have h2: "\<not> Exists ?wa (LedgerDir installer_rg) ''ripgrep''"
    by (simp add: os_defs ledger_defs scenario_defs)
  have h3: "\<not> IDryRun installer_rg" by (simp add: installer_rg_def)
  have h4: "?fetch ?wa = (Inr p_src, ?wa)" by simp
  have h5: "Create (LedgerDir installer_rg) ''ripgrep'' ''src'' ?wa = (Inr (ledger_open []), ?wb)"
    by (simp add: os_defs ledger_defs scenario_defs)
  have h6: "(\<lambda>srcDir :: path. [step_mkdir, step_copy]) p_src = [step_mkdir] @ step_copy # []"
    by simp
  have nr: "NewRecorder (ledger_open []) (BackupDir installer_rg) = ?ra"
    by (simp add: install_defs scenario_defs)
  have h7: "install_steps installer_rg p_src 0 [step_mkdir] ?ra ?wb = (None, ?rb, ?wc)"
    by (simp add: os_defs ledger_defs install_defs scenario_defs)
  have h8: "executeStep step_copy p_src ?rb ?wc =
      (Some (Wrapped ''open source'' (PathError ENOENT)), ?rb, ?wc)"
    by (simp add: os_defs ledger_defs install_defs scenario_defs)
  have rb: "rolled_back ?rb ?wc = mk_world (tree_inst [] ?src (Some []))"
    by (simp add: os_defs ledger_defs replay_defs install_defs scenario_defs)
  have rm: "os_RemoveAll (mk_world (tree_inst [] ?src (Some []))) p_src =
      mk_world (tree_inst [] [] (Some []))"
    by (simp add: os_defs install_defs scenario_defs)
  have er: "step_error (length [step_mkdir] + 1) step_copy (Wrapped ''open source'' (PathError ENOENT)) =
      Wrapped ''step 2 (copy)'' (Wrapped ''open source'' (PathError ENOENT))"
    by (simp add: ledger_defs install_defs scenario_defs)
  note inst = failing_step_is_rolled_back [where loadPackage = ?load and fetchSource = ?fetch,
      OF refl h2 h3 h4 h5 h6 h7 [folded nr] h8]
  have "Install installer_rg ''ripgrep'' ?load ?fetch ?wa =
      (Some (Wrapped ''step 2 (copy)'' (Wrapped ''open source'' (PathError ENOENT))),
       mk_world (tree_inst [] [] (Some [])))"
    using inst [THEN conjunct1] unfolding rb rm er .
  moreover have "LedgerDir installer_rg = [''ledgers'']" by (simp add: installer_rg_def)
  ultimately show ?thesis using h2 h5 h7 h8 by simp
qed


end
